theory Spec2Isabelle
  imports Main "HOL-Library.Sublist"
begin

section \<open>JavaScript string primitives used by \<^verbatim>\<open>src/index.ts\<close>\<close>

text \<open>
  A JavaScript string is modelled as a \<^typ>\<open>string\<close>: a list of code units, here
  restricted to the Latin-1 range. The functions below are the
  \<^verbatim>\<open>String.prototype\<close> methods the program calls, with the behaviour ECMAScript
  gives them on the arguments the program passes.
\<close>

definition isWhiteSpace :: "char \<Rightarrow> bool" where
  \<comment> \<open>WhiteSpace and LineTerminator code units below 256: TAB, LF, VT, FF, CR, SP, NBSP.\<close>
  "isWhiteSpace c \<longleftrightarrow> c \<in> {CHR 0x09, CHR 0x0A, CHR 0x0B, CHR 0x0C, CHR 0x0D, CHR 0x20, CHR 0xA0}"

definition str_trim :: "string \<Rightarrow> string" where
  \<comment> \<open>\<^verbatim>\<open>s.trim()\<close>: white space removed from both ends.\<close>
  "str_trim s = rev (dropWhile isWhiteSpace (rev (dropWhile isWhiteSpace s)))"

fun str_split :: "string \<Rightarrow> char \<Rightarrow> string list" where
  \<comment> \<open>\<^verbatim>\<open>s.split(c)\<close> for a one-character separator: every occurrence splits, and
      the result always has at least one element (\<^verbatim>\<open>''.split(':')\<close> is \<^verbatim>\<open>['']\<close>).\<close>
  "str_split [] c = [[]]"
| "str_split (x # xs) c =
     (if x = c then [] # str_split xs c
      else (case str_split xs c of
              [] \<Rightarrow> [[x]]
            | seg # segs \<Rightarrow> (x # seg) # segs))"

fun str_join :: "string list \<Rightarrow> string \<Rightarrow> string" where
  \<comment> \<open>\<^verbatim>\<open>parts.join(sep)\<close>.\<close>
  "str_join [] sep = []"
| "str_join [p] sep = p"
| "str_join (p # q # ps) sep = p @ sep @ str_join (q # ps) sep"

fun str_includes :: "string \<Rightarrow> string \<Rightarrow> bool" where
  \<comment> \<open>\<^verbatim>\<open>s.includes(t)\<close>: \<open>t\<close> occurs somewhere in \<open>s\<close> as a contiguous substring.\<close>
  "str_includes [] t = (t = [])"
| "str_includes (x # xs) t = (prefix t (x # xs) \<or> str_includes xs t)"

fun indexOf_from :: "string \<Rightarrow> string \<Rightarrow> nat \<Rightarrow> int" where
  "indexOf_from [] t i = (if t = [] then int i else - 1)"
| "indexOf_from (x # xs) t i =
     (if prefix t (x # xs) then int i else indexOf_from xs t (Suc i))"

definition str_indexOf :: "string \<Rightarrow> string \<Rightarrow> int" where
  \<comment> \<open>\<^verbatim>\<open>s.indexOf(t)\<close>: the position of the first occurrence, or \<open>-1\<close>.\<close>
  "str_indexOf s t = indexOf_from s t 0"

definition str_slice :: "string \<Rightarrow> int \<Rightarrow> int \<Rightarrow> string" where
  \<comment> \<open>\<^verbatim>\<open>s.slice(b, e)\<close>: a negative index counts from the end, both indices are
      clamped to the string, and an empty range gives the empty string.\<close>
  "str_slice s b e =
     (let n = int (length s);
          from = (if b < 0 then max (n + b) 0 else min b n);
          to = (if e < 0 then max (n + e) 0 else min e n)
      in take (nat (to - from)) (drop (nat from) s))"


section \<open>The path module of the runtime (POSIX flavour)\<close>

text \<open>
  \<^verbatim>\<open>path.parse\<close> and \<^verbatim>\<open>path.join\<close> belong to the Node.js runtime, not to the
  repository. They are modelled after the runtime's POSIX implementation:
  \<^verbatim>\<open>parse\<close> by its right-to-left scan over the path, \<^verbatim>\<open>join\<close> and
  \<^verbatim>\<open>normalize\<close> by what the scan of \<^verbatim>\<open>normalizeString\<close> does to each segment
  between separators.
\<close>

record ParsedPath =
  root :: string
  dir :: string
  base :: string
  ext :: string
  name :: string

record ParseState =
  startDot :: int
  startPart :: int
  endIdx :: int
  matchedSlash :: bool
  preDotState :: int

fun parse_loop ::
  "string \<Rightarrow> nat \<Rightarrow> nat \<Rightarrow> int \<Rightarrow> int \<Rightarrow> int \<Rightarrow> bool \<Rightarrow> int \<Rightarrow> ParseState" where
  \<comment> \<open>\<^verbatim>\<open>for (; i >= start; --i)\<close>, the scan from the last character down to
      \<open>start\<close>; the third argument is \<open>i + 1\<close>, the others are the loop's variables
      \<^verbatim>\<open>startDot\<close>, \<^verbatim>\<open>startPart\<close>, \<^verbatim>\<open>end\<close>, \<^verbatim>\<open>matchedSlash\<close> and \<^verbatim>\<open>preDotState\<close>.
      The scan stops at the first separator that is not part of the trailing run of
      separators.\<close>
  "parse_loop path start 0 sd sp en ms pd =
     \<lparr>startDot = sd, startPart = sp, endIdx = en, matchedSlash = ms, preDotState = pd\<rparr>"
| "parse_loop path start (Suc i) sd sp en ms pd =
     (if i < start then
        \<lparr>startDot = sd, startPart = sp, endIdx = en, matchedSlash = ms, preDotState = pd\<rparr>
      else if path ! i = CHR ''/'' then
        (if \<not> ms then
           \<lparr>startDot = sd, startPart = int i + 1, endIdx = en, matchedSlash = ms,
            preDotState = pd\<rparr>
         else parse_loop path start i sd sp en ms pd)
      else
        parse_loop path start i
          (if path ! i = CHR ''.'' \<and> sd = - 1 then int i else sd)
          sp
          (if en = - 1 then int i + 1 else en)
          (if en = - 1 then False else ms)
          (if path ! i = CHR ''.'' then (if sd = - 1 then pd else 1)
           else if sd \<noteq> - 1 then - 1 else pd))"

definition parse_result :: "string \<Rightarrow> bool \<Rightarrow> ParseState \<Rightarrow> ParsedPath" where
  \<comment> \<open>The fields of the result, cut out of the path at the positions the scan found.\<close>
  "parse_result path isAbsolute s =
     (let start2 = (if startPart s = 0 \<and> isAbsolute then 1 else startPart s);
          noExt = (startDot s = - 1 \<or> preDotState s = 0 \<or>
                   (preDotState s = 1 \<and> startDot s = endIdx s - 1 \<and>
                    startDot s = startPart s + 1))
      in \<lparr>root = (if isAbsolute then ''/'' else []),
          dir = (if startPart s > 0 then str_slice path 0 (startPart s - 1)
                 else if isAbsolute then ''/'' else []),
          base = (if endIdx s = - 1 then [] else str_slice path start2 (endIdx s)),
          ext = (if endIdx s = - 1 \<or> noExt then []
                 else str_slice path (startDot s) (endIdx s)),
          name = (if endIdx s = - 1 then []
                  else if noExt then str_slice path start2 (endIdx s)
                  else str_slice path start2 (startDot s))\<rparr>)"

definition path_parse :: "string \<Rightarrow> ParsedPath" where
  "path_parse path =
     (if path = [] then \<lparr>root = [], dir = [], base = [], ext = [], name = []\<rparr>
      else parse_result path (hd path = CHR ''/'')
             (parse_loop path (if hd path = CHR ''/'' then 1 else 0) (length path)
                (- 1) 0 (- 1) True 0))"

definition normalize_step :: "bool \<Rightarrow> string list \<Rightarrow> string \<Rightarrow> string list" where
  \<comment> \<open>What \<^verbatim>\<open>normalizeString\<close> does with one segment, given the segments kept so far:
      an empty segment and \<^verbatim>\<open>.\<close> are dropped, \<^verbatim>\<open>..\<close> removes the last kept segment
      (or is kept itself, above the start of a relative path), anything else is kept.\<close>
  "normalize_step allowAboveRoot kept seg =
     (if seg = [] \<or> seg = ''.'' then kept
      else if seg = ''..'' then
        (if kept \<noteq> [] \<and> last kept \<noteq> ''..'' then butlast kept
         else if allowAboveRoot then kept @ [''..'']
         else kept)
      else kept @ [seg])"

definition normalizeString :: "string \<Rightarrow> bool \<Rightarrow> string" where
  "normalizeString path allowAboveRoot =
     str_join (foldl (normalize_step allowAboveRoot) [] (str_split path CHR ''/'')) ''/''"

definition path_normalize :: "string \<Rightarrow> string" where
  "path_normalize path =
     (if path = [] then ''.''
      else
        (let isAbsolute = (hd path = CHR ''/'');
             trailingSeparator = (last path = CHR ''/'');
             p = normalizeString path (\<not> isAbsolute)
         in if p = [] then
              (if isAbsolute then ''/'' else if trailingSeparator then ''./'' else ''.'')
            else
              (let p' = (if trailingSeparator then p @ ''/'' else p)
               in if isAbsolute then ''/'' @ p' else p')))"

definition path_join :: "string list \<Rightarrow> string" where
  \<comment> \<open>\<^verbatim>\<open>path.join(...args)\<close>: the non-empty arguments joined by \<^verbatim>\<open>/\<close>, normalized.\<close>
  "path_join args =
     (let parts = filter (\<lambda>arg. arg \<noteq> []) args
      in if parts = [] then ''.'' else path_normalize (str_join parts ''/''))"


section \<open>Path resolver (\<^verbatim>\<open>formatFilename\<close>, lines 116--123)\<close>

definition formatFilename :: "string \<Rightarrow> string" where
  "formatFilename filename =
     (let parsed = path_parse filename
      in if base parsed = ''index.html'' then filename
         else path_join [dir parsed, name parsed, ''index.html''])"

definition href_of :: "string \<Rightarrow> string" where
  \<comment> \<open>Lines 103--104 of \<^verbatim>\<open>postsData\<close>:
      \<^verbatim>\<open>let href = formatFilename(fullpath); href = path.parse(href).dir\<close>.\<close>
  "href_of fullpath = dir (path_parse (formatFilename fullpath))"

definition spec_outputPath :: "string \<Rightarrow> string" where
  \<comment> \<open>The specification's output path, read as text:
      \<^verbatim>\<open><dir(P)>/<name(P)>/index.html\<close>.\<close>
  "spec_outputPath P = dir (path_parse P) @ ''/'' @ name (path_parse P) @ ''/index.html''"

definition spec_href :: "string \<Rightarrow> string" where
  \<comment> \<open>The specification's href, read as text: \<^verbatim>\<open><dir(P)>/<name(P)>/\<close>.\<close>
  "spec_href P = dir (path_parse P) @ ''/'' @ name (path_parse P) @ ''/''"

definition plain_segment :: "string \<Rightarrow> bool" where
  \<comment> \<open>A path segment that normalization keeps as it is.\<close>
  "plain_segment seg \<longleftrightarrow> seg \<noteq> [] \<and> seg \<noteq> ''.'' \<and> seg \<noteq> ''..'' \<and> CHR ''/'' \<notin> set seg"

definition clean_dir :: "string \<Rightarrow> bool" where
  \<comment> \<open>A directory path that is already normalized: one or more plain segments joined
      by single separators, with or without a leading separator.\<close>
  "clean_dir d \<longleftrightarrow>
     (case str_split d CHR ''/'' of
        [] \<Rightarrow> False
      | s # ss \<Rightarrow> if s = [] then ss \<noteq> [] \<and> list_all plain_segment ss
                  else list_all plain_segment (s # ss))"


section \<open>Errors\<close>

datatype js_error =
    TypeError           \<comment> \<open>a method call on \<^verbatim>\<open>undefined\<close>\<close>
  | MinifierError string  \<comment> \<open>the \<^verbatim>\<open>error\<close> field of the JS minifier's result, thrown by the program\<close>
  | FsError string        \<comment> \<open>an error code thrown by a file-system call\<close>


section \<open>Metadata parser (\<^verbatim>\<open>parseMetadata\<close>, lines 143--152)\<close>

type_synonym Metadata = "string \<rightharpoonup> string"

definition parseMetadata_step :: "Metadata \<Rightarrow> string list \<Rightarrow> js_error + Metadata" where
  \<comment> \<open>The reducer \<^verbatim>\<open>(data, [key, value]) => ({...data, [key]: value.trim()})\<close>. The
      destructuring takes the first two elements of the array and ignores the rest; with
      fewer than two elements \<^verbatim>\<open>value\<close> is \<^verbatim>\<open>undefined\<close> and
      \<^verbatim>\<open>value.trim()\<close> throws a TypeError.\<close>
  "parseMetadata_step data parts =
     (case parts of
        key # value # _ \<Rightarrow> Inr (data(key \<mapsto> str_trim value))
      | _ \<Rightarrow> Inl TypeError)"

fun reduce :: "('a \<Rightarrow> 'b \<Rightarrow> js_error + 'a) \<Rightarrow> 'a \<Rightarrow> 'b list \<Rightarrow> js_error + 'a" where
  \<comment> \<open>\<^verbatim>\<open>xs.reduce(f, acc)\<close> with a reducer that may throw: the first exception ends it.\<close>
  "reduce f acc [] = Inr acc"
| "reduce f acc (x # xs) =
     (case f acc x of
        Inl e \<Rightarrow> Inl e
      | Inr acc' \<Rightarrow> reduce f acc' xs)"

definition parseMetadata :: "string \<Rightarrow> js_error + Metadata" where
  "parseMetadata str =
     reduce parseMetadata_step Map.empty
       (map (\<lambda>line. str_split line CHR '':'') (str_split str CHR 0x0A))"

definition spec_splitFirstColon :: "string \<Rightarrow> string \<times> string" where
  \<comment> \<open>The specification's reading of one header line: the key is the text before the
      first colon, the value is the whole remainder after it, trimmed.\<close>
  "spec_splitFirstColon line =
     (takeWhile (\<lambda>c. c \<noteq> CHR '':'') line,
      str_trim (tl (dropWhile (\<lambda>c. c \<noteq> CHR '':'') line)))"


definition spec_parseMetadata :: "string \<Rightarrow> Metadata" where
  \<comment> \<open>The specification's parser: every line split on its first colon, later lines
      overriding earlier ones.\<close>
  "spec_parseMetadata str =
     fold (\<lambda>line data. data(fst (spec_splitFirstColon line) \<mapsto> snd (spec_splitFirstColon line)))
       (str_split str CHR 0x0A) Map.empty"


section \<open>Documents and the build environment\<close>

record OrgCompilationResult =
  html :: string
  metadata :: Metadata

record PostData = OrgCompilationResult +
  filename :: string
  fullpath :: string
  href :: string

record Defaults =
  css :: string
  title :: string

record TerserResult =
  code :: string
  error :: "js_error option"
  warnings :: "string list option"

text \<open>
  Everything the program obtains from outside: the file system, the external converter,
  the compiled templates, the syntax highlighter and the two minifiers. The HTML minifier
  takes the program's \<^verbatim>\<open>minifyJS\<close> callback; it is modelled by the script texts it
  hands to the callback, in order (\<open>scriptBlocks\<close>), and by the page it returns from
  the callback's results (\<open>minifiedHtml\<close>). It does not catch what the callback throws.
  The file system is taken to hold every file the program reads and to accept every
  write; the one file-system error in the model is the one that depends on the argument
  alone, \<^verbatim>\<open>mkdirSync\<close> of the empty path.
\<close>

record env =
  readdirSync :: "string \<Rightarrow> string list"
  readFileSync :: "string \<Rightarrow> string"
  pandoc :: "string \<Rightarrow> string"
  makePost :: "PostData \<Rightarrow> Defaults \<Rightarrow> string"
  makeIndex :: "PostData list \<Rightarrow> Defaults \<Rightarrow> string"
  highlightHtml :: "string \<Rightarrow> string"
  scriptBlocks :: "string \<Rightarrow> string list"
  minifiedHtml :: "string \<Rightarrow> string list \<Rightarrow> string"
  terser :: "string \<Rightarrow> TerserResult"
  fontsCss :: string

datatype event =
    Log string                 \<comment> \<open>\<^verbatim>\<open>console.log\<close> of a string\<close>
  | LogWarnings "string list"  \<comment> \<open>\<^verbatim>\<open>console.log(res.warnings)\<close>\<close>
  | Mkdir string               \<comment> \<open>\<^verbatim>\<open>fs.mkdirSync(dir, {recursive: true})\<close>\<close>
  | WriteFile string string    \<comment> \<open>\<^verbatim>\<open>fs.writeFileSync(path, content)\<close>\<close>

type_synonym 'a outcome = "event list \<times> (js_error + 'a)"

definition andThen :: "'a outcome \<Rightarrow> ('a \<Rightarrow> 'b outcome) \<Rightarrow> 'b outcome" where
  \<comment> \<open>Statement sequencing: the effects of the first, then, unless it threw, the second.\<close>
  "andThen m f =
     (case m of
        (ev, Inl e) \<Rightarrow> (ev, Inl e)
      | (ev, Inr x) \<Rightarrow> (case f x of (ev', r) \<Rightarrow> (ev @ ev', r)))"

definition POSTS_DIR :: string where
  "POSTS_DIR = ''./posts''"


section \<open>Document loading (\<^verbatim>\<open>compileOrgFile\<close>, lines 130--142; \<^verbatim>\<open>postsData\<close>, lines 94--114)\<close>

definition separator :: string where
  "separator = [CHR 0x0A] @ ''---'' @ [CHR 0x0A]"

definition compileOrgFile :: "env \<Rightarrow> string \<Rightarrow> js_error + OrgCompilationResult" where
  "compileOrgFile env path =
     (let rawContent = readFileSync env path;
          idx = str_indexOf rawContent separator;
          rawMetadata = str_slice rawContent 0 idx
      in case parseMetadata rawMetadata of
           Inl e \<Rightarrow> Inl e
         | Inr md \<Rightarrow>
             (let content = str_slice rawContent (idx + int (length separator))
                              (int (length rawContent));
                  stdout = pandoc env content
              in Inr \<lparr>html = stdout, metadata = md\<rparr>))"

primrec postsData_loop :: "env \<Rightarrow> string list \<Rightarrow> PostData list outcome" where
  \<comment> \<open>The body of \<^verbatim>\<open>for (const filename of fs.readdirSync(POSTS_DIR))\<close>; the list
      returned is \<^verbatim>\<open>data\<close>, in the order of the pushes.\<close>
  "postsData_loop env [] = ([], Inr [])"
| "postsData_loop env (fname # rest) =
     (let fpath = path_join [POSTS_DIR, fname]
      in if \<not> str_includes fname ''.org'' then
           andThen ([Log (''Skipping '' @ fname)], Inr ()) (\<lambda>_. postsData_loop env rest)
         else
           (case compileOrgFile env fpath of
              Inl e \<Rightarrow> ([], Inl e)
            | Inr res \<Rightarrow>
                andThen (postsData_loop env rest)
                  (\<lambda>data. ([], Inr (\<lparr>html = html res, metadata = metadata res,
                                       filename = fname, fullpath = fpath,
                                       href = href_of fpath\<rparr> # data)))))"

definition postsData :: "env \<Rightarrow> PostData list outcome" where
  "postsData env = postsData_loop env (readdirSync env POSTS_DIR)"

definition spec_hasDocumentExtension :: "string \<Rightarrow> bool" where
  \<comment> \<open>The specification's filter: the file name has \<^verbatim>\<open>.org\<close> as its extension.\<close>
  "spec_hasDocumentExtension fname \<longleftrightarrow> ext (path_parse fname) = ''.org''"


section \<open>Rendering and writing (lines 20--31 and 59--84)\<close>

definition genCss :: "env \<Rightarrow> string" where
  "genCss env =
     readFileSync env ''assets/style.css'' @ [CHR 0x0A] @
     readFileSync env ''assets/atom-one-dark.css''"

definition defaults :: "env \<Rightarrow> PostData option \<Rightarrow> Defaults" where
  \<comment> \<open>\<^verbatim>\<open>post?.metadata.title ? `${post?.metadata.title} - Frank Filho` : 'Frank Filho'\<close>:
      no post, no \<^verbatim>\<open>title\<close> key and the empty string are all falsy.\<close>
  "defaults env post =
     \<lparr>css = genCss env,
      title = (case post of
                 None \<Rightarrow> ''Frank Filho''
               | Some p \<Rightarrow>
                   (case metadata p ''title'' of
                      None \<Rightarrow> ''Frank Filho''
                    | Some t \<Rightarrow> if t = [] then ''Frank Filho'' else t @ '' - Frank Filho''))\<rparr>"

definition minifyJS :: "env \<Rightarrow> string \<Rightarrow> string outcome" where
  \<comment> \<open>The \<^verbatim>\<open>minifyJS\<close> callback of \<^verbatim>\<open>optimizeHtml\<close>, lines 184--192.\<close>
  "minifyJS env text =
     (let res = terser env text;
          logged = (case warnings res of Some w \<Rightarrow> [LogWarnings w] | None \<Rightarrow> [])
      in case error res of
           Some e \<Rightarrow> (logged @ [Log text], Inl e)
         | None \<Rightarrow> (logged, Inr (code res)))"

primrec minifyScripts :: "env \<Rightarrow> string list \<Rightarrow> string list outcome" where
  \<comment> \<open>The HTML minifier calling the callback on each script text in turn.\<close>
  "minifyScripts env [] = ([], Inr [])"
| "minifyScripts env (text # texts) =
     andThen (minifyJS env text)
       (\<lambda>c. andThen (minifyScripts env texts) (\<lambda>cs. ([], Inr (c # cs))))"

definition htmlMinifier_minify :: "env \<Rightarrow> string \<Rightarrow> string outcome" where
  "htmlMinifier_minify env page =
     andThen (minifyScripts env (scriptBlocks env page))
       (\<lambda>cs. ([], Inr (minifiedHtml env page cs)))"

definition optimizeHtml :: "env \<Rightarrow> string \<Rightarrow> string outcome" where
  \<comment> \<open>Lines 194--195: \<^verbatim>\<open>htmlMinifier.minify(highlightHtml(html), opts)\<close>.\<close>
  "optimizeHtml env page = htmlMinifier_minify env (highlightHtml env page)"

definition mkdirSync :: "string \<Rightarrow> unit outcome" where
  \<comment> \<open>\<^verbatim>\<open>fs.mkdirSync(dir, {recursive: true})\<close>. The empty path names no directory: the
      call throws \<^verbatim>\<open>ENOENT\<close> whatever the file system holds. Any other directory is
      taken to exist or to be creatable.\<close>
  "mkdirSync d = (if d = [] then ([], Inl (FsError ''ENOENT'')) else ([Mkdir d], Inr ()))"

definition outputPath :: "string \<Rightarrow> string" where
  \<comment> \<open>Line 76: \<^verbatim>\<open>formatFilename(path.join('build', filename))\<close>.\<close>
  "outputPath fname = formatFilename (path_join [''build'', fname])"

definition "write" :: "env \<Rightarrow> string \<Rightarrow> string \<Rightarrow> unit outcome" where
  "write env fname content =
     (let fpath = formatFilename (path_join [''build'', fname])
      in andThen (mkdirSync (dir (path_parse fpath)))
           (\<lambda>_. andThen ([Log (''Writing to '' @ fpath)], Inr ())
              (\<lambda>_. andThen (optimizeHtml env content)
                      (\<lambda>out. ([WriteFile fpath out], Inr ())))))"

definition genIndex :: "env \<Rightarrow> PostData list \<Rightarrow> unit outcome" where
  "genIndex env posts = write env ''index.html'' (makeIndex env posts (defaults env None))"

primrec genPosts :: "env \<Rightarrow> PostData list \<Rightarrow> unit outcome" where
  "genPosts env [] = ([], Inr ())"
| "genPosts env (post # posts) =
     andThen (write env (fullpath post) (makePost env post (defaults env (Some post))))
       (\<lambda>_. genPosts env posts)"

definition compileFontCss :: "env \<Rightarrow> unit outcome" where
  "compileFontCss env = ([WriteFile ''build/assets/fonts.css'' (fontsCss env)], Inr ())"

definition main :: "env \<Rightarrow> unit outcome" where
  \<comment> \<open>The module's top-level statements, lines 13--24, in order: \<^verbatim>\<open>DATA = postsData()\<close>,
      the asset directory, the font stylesheet, the partials (no effect recorded), the
      document pages, the index page.\<close>
  "main env =
     andThen (postsData env)
       (\<lambda>DATA. andThen (mkdirSync ''build/assets'')
          (\<lambda>_. andThen (compileFontCss env)
             (\<lambda>_. andThen (genPosts env DATA)
                (\<lambda>_. genIndex env DATA))))"



definition writtenPaths :: "event list \<Rightarrow> string list" where
  \<comment> \<open>The files written, in the order of the writes.\<close>
  "writtenPaths evs = concat (map (\<lambda>e. case e of WriteFile p _ \<Rightarrow> [p] | _ \<Rightarrow> []) evs)"


definition spec_indexBeforeDocuments :: "string list \<Rightarrow> string list \<Rightarrow> bool" where
  \<comment> \<open>The specification's order of writes: every document page is written after the
      index page \<^verbatim>\<open>build/index.html\<close>.\<close>
  "spec_indexBeforeDocuments docPaths written \<longleftrightarrow>
     list_all (\<lambda>d. d \<in> set (tl (dropWhile (\<lambda>p. p \<noteq> ''build/index.html'') written))) docPaths"


section \<open>A concrete build, for the examples\<close>

definition example_terser :: "string \<Rightarrow> TerserResult" where
  \<comment> \<open>A minifier that rejects the script \<^verbatim>\<open>var = ;\<close>, warns about \<^verbatim>\<open>debugger\<close> and
      returns any other script as it is.\<close>
  "example_terser text =
     (if text = ''var = ;'' then
        \<lparr>code = [], error = Some (MinifierError ''Unexpected token''), warnings = None\<rparr>
      else if text = ''debugger'' then
        \<lparr>code = [], error = None, warnings = Some [''Dropping debugger'']\<rparr>
      else \<lparr>code = text, error = None, warnings = None\<rparr>)"

definition example_env :: "string list \<Rightarrow> string \<Rightarrow> string list \<Rightarrow> env" where
  \<comment> \<open>A documents directory with the given entries, every file with the given content,
      a converter and templates that copy their input, and pages that all carry the
      given scripts.\<close>
  "example_env entries content scripts =
     \<lparr>readdirSync = (\<lambda>_. entries),
      readFileSync = (\<lambda>_. content),
      pandoc = (\<lambda>body. body),
      makePost = (\<lambda>post d. title d @ '': '' @ html post),
      makeIndex = (\<lambda>posts d. title d),
      highlightHtml = (\<lambda>page. page),
      scriptBlocks = (\<lambda>_. scripts),
      minifiedHtml = (\<lambda>page _. page),
      terser = example_terser,
      fontsCss = []\<rparr>"

definition example_document :: string where
  \<comment> \<open>A document file: the header \<^verbatim>\<open>title: T\<close>, the separator, the body.\<close>
  "example_document = ''title: T'' @ separator @ ''body''"

definition example_post :: "string \<Rightarrow> PostData" where
  "example_post t =
     \<lparr>html = ''<p>Hello</p>'', metadata = [''title'' \<mapsto> t], filename = ''a.org'',
      fullpath = ''posts/a.org'', href = ''posts/a''\<rparr>"


section \<open>Properties of the string primitives\<close>

lemma isWhiteSpace_simps [simp]:
  "isWhiteSpace CHR '' ''"
  "\<not> isWhiteSpace CHR ''h''"
  "\<not> isWhiteSpace CHR ''p''"
  "\<not> isWhiteSpace CHR ''m''"
  by (simp_all add: isWhiteSpace_def)

lemma str_split_not_Nil [simp]: "str_split s c \<noteq> []"
  by (induction s) (auto split: list.splits)

lemma str_split_plain: "c \<notin> set s \<Longrightarrow> str_split s c = [s]"
  by (induction s) auto

lemma str_split_append: "str_split (a @ c # b) c = str_split a c @ str_split b c"
  by (induction a) (auto split: list.splits)

lemma str_split_hd: "hd (str_split l c) = takeWhile (\<lambda>x. x \<noteq> c) l"
  by (induction l) (auto split: list.splits)

lemma str_split_first:
  "c \<in> set l \<Longrightarrow>
     str_split l c = takeWhile (\<lambda>x. x \<noteq> c) l # str_split (tl (dropWhile (\<lambda>x. x \<noteq> c) l)) c"
  by (induction l) (auto split: list.splits)

lemma one_occurrence:
  "count_list l c = 1 \<Longrightarrow> c \<in> set l \<and> c \<notin> set (tl (dropWhile (\<lambda>x. x \<noteq> c) l))"
  by (induction l) (auto split: if_splits simp: count_list_0_iff)

lemma str_join_split: "str_join (str_split s c) [c] = s"
proof (induction s)
  case Nil
  then show ?case by simp
next
  case (Cons x s)
  obtain seg segs where sp: "str_split s c = seg # segs"
    by (cases "str_split s c") auto
  with Cons show ?case
    by (cases segs) auto
qed

lemma str_join_append:
  "xs \<noteq> [] \<Longrightarrow> ys \<noteq> [] \<Longrightarrow> str_join (xs @ ys) sep = str_join xs sep @ sep @ str_join ys sep"
proof (induction xs sep rule: str_join.induct)
  case (1 sep)
  then show ?case by simp
next
  case (2 p sep)
  then show ?case by (cases ys) auto
next
  case (3 p q ps sep)
  then show ?case by simp
qed

lemma str_join_snoc:
  "str_join (xs @ [x]) sep = (if xs = [] then x else str_join xs sep @ sep @ x)"
  by (simp add: str_join_append)

lemma str_join_nonempty:
  "xs \<noteq> [] \<Longrightarrow> \<forall>x \<in> set xs. x \<noteq> [] \<Longrightarrow> str_join xs sep \<noteq> []"
  by (induction xs sep rule: str_join.induct) auto

lemma hd_str_join: "x \<noteq> [] \<Longrightarrow> hd (str_join (x # xs) sep) = hd x"
  by (cases xs) auto

lemma str_split_no_sep: "\<forall>s \<in> set (str_split p c). c \<notin> set s"
  by (induction p) (auto split: list.splits)

lemma str_join_last_nonempty:
  "xs \<noteq> [] \<Longrightarrow> last xs \<noteq> [] \<Longrightarrow> str_join xs sep \<noteq> []"
  by (induction xs sep rule: str_join.induct) auto

lemma last_str_join:
  "xs \<noteq> [] \<Longrightarrow> last xs \<noteq> [] \<Longrightarrow> last (str_join xs sep) = last (last xs)"
proof (induction xs sep rule: str_join.induct)
  case (1 sep)
  then show ?case by simp
next
  case (2 p sep)
  then show ?case by simp
next
  case (3 p q ps sep)
  then have "str_join (q # ps) sep \<noteq> []"
    by (intro str_join_last_nonempty) simp_all
  with 3 show ?case by (simp add: last_append)
qed

lemma indexOf_from_absent:
  "\<not> str_includes s t \<Longrightarrow> indexOf_from s t i = - 1"
  by (induction s arbitrary: i) auto

lemma str_includes_sublist: "str_includes s t \<longleftrightarrow> sublist t s"
  by (induction s) (auto simp: sublist_Cons_right)

lemma str_slice_butlast: "str_slice s 0 (- 1) = butlast s"
proof (cases "s = []")
  case True
  then show ?thesis by (simp add: str_slice_def)
next
  case False
  then have "nat (int (length s) - 1) = length s - 1"
    by (simp add: nat_diff_distrib')
  with False show ?thesis
    by (simp add: str_slice_def butlast_conv_take)
qed

lemma str_slice_drop:
  assumes "0 \<le> b"
  shows "str_slice s b (int (length s)) = drop (nat b) s"
proof (cases "b \<le> int (length s)")
  case True
  with assms show ?thesis by (simp add: str_slice_def Let_def min_def)
next
  case False
  with assms show ?thesis by (simp add: str_slice_def Let_def min_def)
qed


section \<open>Properties of the metadata parser\<close>

text \<open>
  What the reducer makes of one line. With a colon in the line, the key is the text before
  the first colon and the value is the trimmed text between the first and the second
  colon (or the end of the line). Without a colon, the reducer throws. On a header whose
  lines have exactly one colon each, the parser agrees with the specification's
  first-colon split; a single line without a colon makes the whole parse throw.
\<close>

lemma parseMetadata_step_colon:
  assumes "CHR '':'' \<in> set line"
  shows "parseMetadata_step data (str_split line CHR '':'') =
           Inr (data(takeWhile (\<lambda>c. c \<noteq> CHR '':'') line \<mapsto>
                  str_trim (takeWhile (\<lambda>c. c \<noteq> CHR '':'')
                              (tl (dropWhile (\<lambda>c. c \<noteq> CHR '':'') line)))))"
proof -
  let ?rest = "tl (dropWhile (\<lambda>c. c \<noteq> CHR '':'') line)"
  obtain v vs where rest: "str_split ?rest CHR '':'' = v # vs"
    by (cases "str_split ?rest CHR '':''") auto
  have "v = takeWhile (\<lambda>c. c \<noteq> CHR '':'') ?rest"
    using str_split_hd [of ?rest "CHR '':''"] rest by simp
  then show ?thesis
    by (simp add: parseMetadata_step_def str_split_first [OF assms] rest)
qed

lemma parseMetadata_step_no_colon:
  "CHR '':'' \<notin> set line \<Longrightarrow>
     parseMetadata_step data (str_split line CHR '':'') = Inl TypeError"
  by (simp add: parseMetadata_step_def str_split_plain)

lemma parseMetadata_step_one_colon:
  assumes "count_list line CHR '':'' = 1"
  shows "parseMetadata_step data (str_split line CHR '':'') =
           Inr (data(fst (spec_splitFirstColon line) \<mapsto> snd (spec_splitFirstColon line)))"
proof -
  let ?rest = "tl (dropWhile (\<lambda>c. c \<noteq> CHR '':'') line)"
  from one_occurrence [OF assms] have 1: "CHR '':'' \<in> set line"
    and 2: "CHR '':'' \<notin> set ?rest"
    by simp_all
  from 2 have "\<forall>x \<in> set ?rest. x \<noteq> CHR '':''"
    by blast
  then have whole: "takeWhile (\<lambda>c. c \<noteq> CHR '':'') ?rest = ?rest"
    by (simp only: takeWhile_eq_all_conv)
  have spec: "spec_splitFirstColon line =
      (takeWhile (\<lambda>c. c \<noteq> CHR '':'') line, str_trim ?rest)"
    by (simp only: spec_splitFirstColon_def)
  show ?thesis
    unfolding parseMetadata_step_colon [OF 1] whole spec fst_conv snd_conv ..
qed

lemma reduce_TypeError:
  assumes "x \<in> set xs" and "\<And>acc. f acc x = Inl TypeError"
    and "\<And>acc y e. f acc y = Inl e \<Longrightarrow> e = TypeError"
  shows "reduce f acc xs = Inl TypeError"
  using assms(1)
proof (induction xs arbitrary: acc)
  case Nil
  then show ?case by simp
next
  case (Cons y xs)
  show ?case
  proof (cases "f acc y")
    case (Inl e)
    with assms(3) show ?thesis by simp
  next
    case (Inr acc')
    show ?thesis
    proof (cases "x = y")
      case True
      with assms(2) [of acc] Inr show ?thesis by simp
    next
      case False
      with Cons.prems have "x \<in> set xs" by simp
      from Cons.IH [OF this] Inr show ?thesis by simp
    qed
  qed
qed

lemma parseMetadata_colonless_line:
  assumes "line \<in> set (str_split str CHR 0x0A)" and "CHR '':'' \<notin> set line"
  shows "parseMetadata str = Inl TypeError"
  unfolding parseMetadata_def
proof (rule reduce_TypeError [where x = "str_split line CHR '':''"])
  show "str_split line CHR '':'' \<in> set (map (\<lambda>line. str_split line CHR '':'') (str_split str CHR 0x0A))"
    using assms(1) by simp
  show "parseMetadata_step acc (str_split line CHR '':'') = Inl TypeError" for acc
    using assms(2) by (rule parseMetadata_step_no_colon)
  show "e = TypeError" if "parseMetadata_step acc y = Inl e" for acc y e
    using that by (auto simp: parseMetadata_step_def split: list.splits)
qed

lemma reduce_one_colon:
  assumes "\<forall>line \<in> set lines. count_list line CHR '':'' = 1"
  shows "reduce parseMetadata_step acc (map (\<lambda>line. str_split line CHR '':'') lines) =
           Inr (fold (\<lambda>line data. data(fst (spec_splitFirstColon line) \<mapsto>
                                       snd (spec_splitFirstColon line))) lines acc)"
  using assms by (induction lines arbitrary: acc) (simp_all add: parseMetadata_step_one_colon)

lemma parseMetadata_one_colon_per_line:
  assumes "\<forall>line \<in> set (str_split str CHR 0x0A). count_list line CHR '':'' = 1"
  shows "parseMetadata str = Inr (spec_parseMetadata str)"
  unfolding parseMetadata_def spec_parseMetadata_def by (rule reduce_one_colon [OF assms])

text \<open>
  C1. A header line whose value contains a colon, such as a URL: the specification keeps
  the whole remainder after the first colon, the code keeps only the text between the
  first and the second colon.
\<close>

theorem parseMetadata_truncates_at_second_colon:
  "parseMetadata ''url: http://example.com'' = Inr [''url'' \<mapsto> ''http'']
   \<and> spec_splitFirstColon ''url: http://example.com'' = (''url'', ''http://example.com'')"
  by (simp add: parseMetadata_def parseMetadata_step_def str_trim_def spec_splitFirstColon_def)

text \<open>
  C2. A header block with a line that has no colon (a bare word, a second line without a
  colon, or the single empty line of an empty header): the reducer calls
  \<^verbatim>\<open>trim\<close> on \<^verbatim>\<open>undefined\<close>, so parsing ends in a TypeError instead of a
  mapping with an absent value.
\<close>

theorem parseMetadata_colonless_line_throws:
  "parseMetadata ''title'' = Inl TypeError
   \<and> parseMetadata (''title: Hello'' @ [CHR 0x0A] @ ''draft'') = Inl TypeError
   \<and> parseMetadata [] = Inl TypeError"
  by (simp add: parseMetadata_def parseMetadata_step_def str_trim_def)


section \<open>Properties of the path resolver\<close>

lemmas path_eval = path_parse_def parse_result_def path_join_def path_normalize_def
  normalizeString_def normalize_step_def str_slice_def

subsection \<open>The model on the runtime's documented examples\<close>

lemma path_parse_examples:
  "path_parse ''/home/user/dir/file.txt'' =
     \<lparr>root = ''/'', dir = ''/home/user/dir'', base = ''file.txt'', ext = ''.txt'', name = ''file''\<rparr>"
  "path_parse ''/foo///bar.baz'' =
     \<lparr>root = ''/'', dir = ''/foo//'', base = ''bar.baz'', ext = ''.baz'', name = ''bar''\<rparr>"
  "path_parse ''/foo///'' =
     \<lparr>root = ''/'', dir = ''/'', base = ''foo'', ext = [], name = ''foo''\<rparr>"
  "path_parse ''.//'' = \<lparr>root = [], dir = [], base = ''.'', ext = [], name = ''.''\<rparr>"
  "path_parse ''.bashrc'' =
     \<lparr>root = [], dir = [], base = ''.bashrc'', ext = [], name = ''.bashrc''\<rparr>"
  "path_parse ''posts/a.org'' =
     \<lparr>root = [], dir = ''posts'', base = ''a.org'', ext = ''.org'', name = ''a''\<rparr>"
  by (simp_all add: path_eval)

lemma path_join_examples:
  "path_join [''/foo'', ''bar'', ''baz/asdf'', ''quux'', ''..''] = ''/foo/bar/baz/asdf''"
  "path_join [[], []] = ''.''"
  "path_join [''./''] = ''./''"
  "path_join [''/'', ''..''] = ''/''"
  "path_join [''./posts'', ''a.org''] = ''posts/a.org''"
  "path_join [''build'', ''posts/a.org''] = ''build/posts/a.org''"
  by (simp_all add: path_eval)

subsection \<open>Normalizing a join that ends in \<^verbatim>\<open>index.html\<close>\<close>

lemma normalize_step_plain: "plain_segment seg \<Longrightarrow> normalize_step a kept seg = kept @ [seg]"
  by (auto simp: normalize_step_def plain_segment_def)

lemma foldl_normalize_plain:
  "list_all plain_segment segs \<Longrightarrow> foldl (normalize_step a) kept segs = kept @ segs"
  by (induction segs arbitrary: kept) (auto simp: normalize_step_plain)

lemma normalize_step_segments:
  assumes "\<forall>s \<in> set kept. s \<noteq> [] \<and> CHR ''/'' \<notin> set s" and "CHR ''/'' \<notin> set seg"
  shows "\<forall>s \<in> set (normalize_step a kept seg). s \<noteq> [] \<and> CHR ''/'' \<notin> set s"
  using assms by (auto simp: normalize_step_def dest: in_set_butlastD)

lemma foldl_normalize_segments:
  assumes "\<forall>s \<in> set kept. s \<noteq> [] \<and> CHR ''/'' \<notin> set s"
    and "\<forall>s \<in> set segs. CHR ''/'' \<notin> set s"
  shows "\<forall>s \<in> set (foldl (normalize_step a) kept segs). s \<noteq> [] \<and> CHR ''/'' \<notin> set s"
  using assms
proof (induction segs arbitrary: kept)
  case Nil
  then show ?case by simp
next
  case (Cons seg segs)
  have "\<forall>s \<in> set (normalize_step a kept seg). s \<noteq> [] \<and> CHR ''/'' \<notin> set s"
    using Cons.prems by (intro normalize_step_segments) simp_all
  from Cons.IH [OF this] Cons.prems(2) show ?case by simp
qed

lemma plain_index_html: "plain_segment ''index.html''"
  by (simp add: plain_segment_def)

lemma path_normalize_index_html:
  "path_normalize (J @ ''/index.html'') =
     (if hd (J @ ''/index.html'') = CHR ''/'' then ''/'' else []) @
     str_join (foldl (normalize_step (hd (J @ ''/index.html'') \<noteq> CHR ''/'')) []
                 (str_split J CHR ''/'') @ [''index.html'']) ''/''"
proof -
  have sp: "str_split (J @ ''/index.html'') CHR ''/'' = str_split J CHR ''/'' @ [''index.html'']"
    using str_split_append [of J "CHR ''/''" "''index.html''"] by simp
  have step: "normalize_step a kept ''index.html'' = kept @ [''index.html'']" for a kept
    by (rule normalize_step_plain [OF plain_index_html])
  have ne: "str_join (kept @ [''index.html'']) ''/'' \<noteq> []" for kept
    by (simp add: str_join_snoc)
  have la: "last (J @ ''/index.html'') \<noteq> CHR ''/''"
    by simp
  have nn: "J @ ''/index.html'' \<noteq> []"
    by simp
  show ?thesis
  proof (cases "hd (J @ ''/index.html'') = CHR ''/''")
    case True
    then show ?thesis
      unfolding path_normalize_def normalizeString_def sp
      by (simp only: nn la if_False Let_def foldl_append foldl.simps step ne not_not if_True
            simp_thms)
  next
    case False
    then show ?thesis
      unfolding path_normalize_def normalizeString_def sp
      by (simp only: nn la if_False Let_def foldl_append foldl.simps step ne not_not if_True
            simp_thms append_Nil)
  qed
qed

lemma path_join_index_html_segments:
  "\<exists>pre kept. (pre = [] \<or> pre = ''/'') \<and> (\<forall>s \<in> set kept. s \<noteq> [] \<and> CHR ''/'' \<notin> set s)
      \<and> path_join [d, n, ''index.html''] = pre @ str_join (kept @ [''index.html'']) ''/''"
proof (cases "d = [] \<and> n = []")
  case True
  have "path_join [[], [], ''index.html''] = ''index.html''"
    by (simp add: path_eval)
  with True have "([] = [] \<or> [] = ''/'')
      \<and> (\<forall>s \<in> set ([] :: string list). s \<noteq> [] \<and> CHR ''/'' \<notin> set s)
      \<and> path_join [d, n, ''index.html''] = [] @ str_join ([] @ [''index.html'']) ''/''"
    by simp
  then show ?thesis by (intro exI)
next
  case False
  define ps where "ps = filter (\<lambda>arg. arg \<noteq> []) [d, n]"
  have ps: "ps \<noteq> []" using False by (auto simp: ps_def)
  define J where "J = str_join ps ''/''"
  have parts: "filter (\<lambda>arg. arg \<noteq> []) [d, n, ''index.html''] = ps @ [''index.html'']"
    by (simp add: ps_def)
  have joined: "str_join (ps @ [''index.html'']) ''/'' = J @ ''/index.html''"
    using ps by (simp add: str_join_snoc J_def)
  have eq: "path_join [d, n, ''index.html''] = path_normalize (J @ ''/index.html'')"
    unfolding path_join_def parts Let_def joined using ps by simp
  define kept where
    "kept = foldl (normalize_step (hd (J @ ''/index.html'') \<noteq> CHR ''/'')) [] (str_split J CHR ''/'')"
  define pre where "pre = (if hd (J @ ''/index.html'') = CHR ''/'' then ''/'' else [])"
  have k: "\<forall>s \<in> set kept. s \<noteq> [] \<and> CHR ''/'' \<notin> set s"
    unfolding kept_def by (rule foldl_normalize_segments) (simp_all add: str_split_no_sep)
  have r: "path_join [d, n, ''index.html''] = pre @ str_join (kept @ [''index.html'']) ''/''"
    unfolding eq path_normalize_index_html kept_def pre_def ..
  have "pre = [] \<or> pre = ''/''"
    unfolding pre_def by (cases "hd (J @ ''/index.html'') = CHR ''/''") simp_all
  with k r have "(pre = [] \<or> pre = ''/'') \<and> (\<forall>s \<in> set kept. s \<noteq> [] \<and> CHR ''/'' \<notin> set s)
      \<and> path_join [d, n, ''index.html''] = pre @ str_join (kept @ [''index.html'']) ''/''"
    by (intro conjI)
  then show ?thesis by (intro exI)
qed

subsection \<open>The directory of a path that ends in \<^verbatim>\<open>/index.html\<close>\<close>

lemma parse_loop_startPart:
  assumes "start \<le> length X" and "CHR ''/'' \<notin> set w"
    and "w = [] \<longrightarrow> \<not> ms" and "en = - 1 \<or> \<not> ms"
  shows "startPart (parse_loop (X @ CHR ''/'' # w @ rest) start (Suc (length X) + length w)
                      sd sp en ms pd) = int (length X) + 1"
  using assms
proof (induction w arbitrary: rest sd sp en ms pd rule: rev_induct)
  case Nil
  then show ?case by simp
next
  case (snoc c w)
  let ?path = "X @ CHR ''/'' # (w @ [c]) @ rest"
  let ?i = "Suc (length X) + length w"
  have path: "?path = X @ CHR ''/'' # w @ (c # rest)" by simp
  have c: "c \<noteq> CHR ''/''" using snoc.prems(2) by auto
  have nth: "?path ! ?i = c"
    by (simp add: nth_append nth_Cons')
  have i: "\<not> ?i < start" using snoc.prems(1) by simp
  have cnt: "Suc (length X) + length (w @ [c]) = Suc ?i" by simp
  have "startPart (parse_loop ?path start (Suc ?i) sd sp en ms pd) =
        startPart (parse_loop ?path start ?i
          (if c = CHR ''.'' \<and> sd = - 1 then int ?i else sd)
          sp
          (if en = - 1 then int ?i + 1 else en)
          (if en = - 1 then False else ms)
          (if c = CHR ''.'' then (if sd = - 1 then pd else 1)
           else if sd \<noteq> - 1 then - 1 else pd))"
    using c i nth by (simp only: parse_loop.simps if_False)
  also have "\<dots> = int (length X) + 1"
    unfolding path
  proof (rule snoc.IH)
    show "start \<le> length X" by (rule snoc.prems(1))
    show "CHR ''/'' \<notin> set w" using snoc.prems(2) by simp
    show "w = [] \<longrightarrow> \<not> (if en = - 1 then False else ms)"
      using snoc.prems(4) by auto
    show "(if en = - 1 then int ?i + 1 else en) = - 1 \<or> \<not> (if en = - 1 then False else ms)"
      using snoc.prems(4) by auto
  qed
  finally show ?case unfolding cnt .
qed

lemma dir_parse_index_html:
  assumes "X \<noteq> []"
  shows "dir (path_parse (X @ ''/index.html'')) = X"
proof -
  let ?path = "X @ ''/index.html''"
  let ?start = "if hd ?path = CHR ''/'' then 1 else 0 :: nat"
  let ?s = "parse_loop ?path ?start (length ?path) (- 1) 0 (- 1) True 0"
  have len: "length ?path = Suc (length X) + length ''index.html''" by simp
  have path: "?path = X @ CHR ''/'' # ''index.html'' @ []" by simp
  have start: "?start \<le> length X" using assms by (cases X) auto
  have "startPart (parse_loop (X @ CHR ''/'' # ''index.html'' @ []) ?start
          (Suc (length X) + length ''index.html'') (- 1) 0 (- 1) True 0) = int (length X) + 1"
    by (rule parse_loop_startPart [OF start]) simp_all
  then have sp: "startPart ?s = int (length X) + 1"
    unfolding len by simp
  have "dir (path_parse ?path) = str_slice ?path 0 (startPart ?s - 1)"
    using sp by (simp add: path_parse_def parse_result_def Let_def)
  also have "\<dots> = X"
    unfolding sp by (simp add: str_slice_def)
  finally show ?thesis .
qed

lemma parse_loop_endIdx:
  assumes "start \<le> length X" and "CHR ''/'' \<notin> set w"
    and "w = [] \<longrightarrow> \<not> ms" and "en = - 1 \<or> \<not> ms"
  shows "endIdx (parse_loop (X @ CHR ''/'' # w @ rest) start (Suc (length X) + length w)
                   sd sp en ms pd) =
           (if en = - 1 \<and> w \<noteq> [] then int (Suc (length X) + length w) else en)"
  using assms
proof (induction w arbitrary: rest sd sp en ms pd rule: rev_induct)
  case Nil
  then show ?case by simp
next
  case (snoc c w)
  let ?path = "X @ CHR ''/'' # (w @ [c]) @ rest"
  let ?i = "Suc (length X) + length w"
  have path: "?path = X @ CHR ''/'' # w @ (c # rest)" by simp
  have c: "c \<noteq> CHR ''/''" using snoc.prems(2) by auto
  have nth: "?path ! ?i = c"
    by (simp add: nth_append nth_Cons')
  have i: "\<not> ?i < start" using snoc.prems(1) by simp
  have cnt: "Suc (length X) + length (w @ [c]) = Suc ?i" by simp
  let ?en = "if en = - 1 then int ?i + 1 else en"
  let ?ms = "if en = - 1 then False else ms"
  have "endIdx (parse_loop ?path start (Suc ?i) sd sp en ms pd) =
        endIdx (parse_loop ?path start ?i
          (if c = CHR ''.'' \<and> sd = - 1 then int ?i else sd)
          sp ?en ?ms
          (if c = CHR ''.'' then (if sd = - 1 then pd else 1)
           else if sd \<noteq> - 1 then - 1 else pd))"
    using c i nth by (simp only: parse_loop.simps if_False)
  also have "\<dots> = (if ?en = - 1 \<and> w \<noteq> [] then int (Suc (length X) + length w) else ?en)"
    unfolding path
  proof (rule snoc.IH)
    show "start \<le> length X" by (rule snoc.prems(1))
    show "CHR ''/'' \<notin> set w" using snoc.prems(2) by simp
    show "w = [] \<longrightarrow> \<not> ?ms"
      using snoc.prems(4) by auto
    show "?en = - 1 \<or> \<not> ?ms"
      using snoc.prems(4) by auto
  qed
  also have "\<dots> = (if en = - 1 \<and> w @ [c] \<noteq> [] then int (Suc (length X) + length (w @ [c])) else en)"
    by simp
  finally show ?case unfolding cnt .
qed

lemma base_parse_last_segment:
  assumes "X \<noteq> []" and "w \<noteq> []" and "CHR ''/'' \<notin> set w"
  shows "base (path_parse (X @ CHR ''/'' # w)) = w"
    and "dir (path_parse (X @ CHR ''/'' # w)) = X"
proof -
  let ?path = "X @ CHR ''/'' # w"
  let ?start = "if hd ?path = CHR ''/'' then 1 else 0 :: nat"
  let ?s = "parse_loop ?path ?start (length ?path) (- 1) 0 (- 1) True 0"
  have len: "length ?path = Suc (length X) + length w" by simp
  have path: "?path = X @ CHR ''/'' # w @ []" by simp
  have start: "?start \<le> length X" using assms(1) by (cases X) auto
  have "startPart (parse_loop (X @ CHR ''/'' # w @ []) ?start
          (Suc (length X) + length w) (- 1) 0 (- 1) True 0) = int (length X) + 1"
    by (rule parse_loop_startPart [OF start assms(3)]) (simp_all add: assms(2))
  then have sp: "startPart ?s = int (length X) + 1"
    unfolding len by simp
  have "endIdx (parse_loop (X @ CHR ''/'' # w @ []) ?start
          (Suc (length X) + length w) (- 1) 0 (- 1) True 0) =
        (if (- 1 :: int) = - 1 \<and> w \<noteq> [] then int (Suc (length X) + length w) else - 1)"
    by (rule parse_loop_endIdx [OF start assms(3)]) (simp_all add: assms(2))
  then have en: "endIdx ?s = int (length X) + 1 + int (length w)"
    unfolding len using assms(2) by simp
  have "base (path_parse ?path) = str_slice ?path (startPart ?s) (endIdx ?s)"
    using sp en by (simp add: path_parse_def parse_result_def Let_def)
  also have "\<dots> = w"
    unfolding sp en by (simp add: str_slice_def nat_add_distrib)
  finally show "base (path_parse ?path) = w" .
  have "dir (path_parse ?path) = str_slice ?path 0 (startPart ?s - 1)"
    using sp by (simp add: path_parse_def parse_result_def Let_def)
  also have "\<dots> = X"
    unfolding sp by (simp add: str_slice_def)
  finally show "dir (path_parse ?path) = X" .
qed

subsection \<open>Joining a normalized directory\<close>

lemma plain_segment_hd: "plain_segment s \<Longrightarrow> hd s \<noteq> CHR ''/''"
  by (cases s) (auto simp: plain_segment_def)

lemma path_join_three:
  assumes "d \<noteq> []" and "n \<noteq> []"
  shows "path_join [d, n, ''index.html''] = path_normalize ((d @ ''/'' @ n) @ ''/index.html'')"
  using assms by (simp add: path_join_def)

lemma path_join_empty_dir:
  assumes "plain_segment n"
  shows "path_join [[], n, ''index.html''] = n @ ''/index.html''"
proof -
  have n: "n \<noteq> []" "CHR ''/'' \<notin> set n" "hd n \<noteq> CHR ''/''"
    using assms plain_segment_hd [OF assms] by (auto simp: plain_segment_def)
  have hd: "hd (n @ ''/index.html'') \<noteq> CHR ''/''"
    using n by simp
  have "path_join [[], n, ''index.html''] = path_normalize (n @ ''/index.html'')"
    using n by (simp add: path_join_def)
  also have "\<dots> = str_join (foldl (normalize_step True) [] [n] @ [''index.html'']) ''/''"
    unfolding path_normalize_index_html using hd n by (simp add: str_split_plain)
  also have "\<dots> = n @ ''/index.html''"
    using assms by (simp add: normalize_step_plain)
  finally show ?thesis .
qed

lemma path_join_clean:
  assumes "clean_dir d" and "plain_segment n"
  shows "path_join [d, n, ''index.html''] = d @ ''/'' @ n @ ''/index.html''"
proof -
  obtain s ss where sp: "str_split d CHR ''/'' = s # ss"
    by (cases "str_split d CHR ''/''") auto
  have d: "d = str_join (s # ss) ''/''"
    using str_join_split [of d "CHR ''/''"] sp by simp
  have n: "n \<noteq> []" "CHR ''/'' \<notin> set n"
    using assms(2) by (auto simp: plain_segment_def)
  have dne: "d \<noteq> []"
    using assms(1) sp d by (cases ss) (auto simp: clean_dir_def plain_segment_def split: if_splits)
  let ?J = "d @ ''/'' @ n"
  have hdJ: "hd (?J @ ''/index.html'') = hd d"
    using dne by simp
  have splitJ: "str_split ?J CHR ''/'' = (s # ss) @ [n]"
    using str_split_append [of d "CHR ''/''" n] sp n by (simp add: str_split_plain)
  have norm: "path_join [d, n, ''index.html''] =
      (if hd d = CHR ''/'' then ''/'' else []) @
      str_join (foldl (normalize_step (hd d \<noteq> CHR ''/'')) [] ((s # ss) @ [n]) @ [''index.html''])
        ''/''"
    unfolding path_join_three [OF dne n(1)] path_normalize_index_html hdJ splitJ ..
  show ?thesis
  proof (cases "s = []")
    case False
    with assms(1) sp have plain: "list_all plain_segment (s # ss)"
      by (simp add: clean_dir_def)
    then have "plain_segment s" by simp
    then have "hd s \<noteq> CHR ''/''" by (rule plain_segment_hd)
    moreover have "hd d = hd s"
      unfolding d using False by (rule hd_str_join)
    ultimately have rel: "hd d \<noteq> CHR ''/''" by simp
    have all: "list_all plain_segment ((s # ss) @ [n])"
      using plain assms(2) by simp
    have "path_join [d, n, ''index.html''] = str_join (((s # ss) @ [n]) @ [''index.html'']) ''/''"
      unfolding norm foldl_normalize_plain [OF all] using rel by simp
    also have "\<dots> = str_join (s # ss) ''/'' @ ''/'' @ str_join [n, ''index.html''] ''/''"
      using str_join_append [of "s # ss" "[n, ''index.html'']" "''/''"] by simp
    also have "\<dots> = d @ ''/'' @ n @ ''/index.html''"
      unfolding d [symmetric] by simp
    finally show ?thesis .
  next
    case True
    with assms(1) sp have ss: "ss \<noteq> []" "list_all plain_segment ss"
      by (simp_all add: clean_dir_def)
    have dd: "d = ''/'' @ str_join ss ''/''"
      unfolding d using True ss(1) by (cases ss) simp_all
    then have abs: "hd d = CHR ''/''" by simp
    have all: "list_all plain_segment (ss @ [n])"
      using ss(2) assms(2) by simp
    have "foldl (normalize_step False) [] ((s # ss) @ [n]) = foldl (normalize_step False) [] (ss @ [n])"
      using True by (simp add: normalize_step_def)
    also have "\<dots> = ss @ [n]"
      using foldl_normalize_plain [OF all, of False "[]"] by simp
    finally have kept: "foldl (normalize_step False) [] ((s # ss) @ [n]) = ss @ [n]" .
    have "path_join [d, n, ''index.html''] = ''/'' @ str_join ((ss @ [n]) @ [''index.html'']) ''/''"
      unfolding norm using abs kept by simp
    also have "str_join ((ss @ [n]) @ [''index.html'']) ''/''
                 = str_join ss ''/'' @ ''/'' @ str_join [n, ''index.html''] ''/''"
      using str_join_append [of ss "[n, ''index.html'']" "''/''"] ss(1) by simp
    finally show ?thesis
      unfolding dd by simp
  qed
qed

lemma posts_join:
  assumes "plain_segment f"
  shows "path_join [POSTS_DIR, f] = ''posts/'' @ f"
proof -
  have f: "f \<noteq> []" "CHR ''/'' \<notin> set f"
    using assms by (auto simp: plain_segment_def)
  define P where "P = ''./posts'' @ CHR ''/'' # f"
  have "last f \<noteq> CHR ''/''"
    using f last_in_set [of f] by metis
  with f(1) have P: "P \<noteq> []" "hd P \<noteq> CHR ''/''" "last P \<noteq> CHR ''/''"
    by (simp_all add: P_def last_append)
  have sp: "str_split P CHR ''/'' = [''.'', ''posts'', f]"
    unfolding P_def str_split_append by (simp add: str_split_plain [OF f(2)])
  have kept: "foldl (normalize_step True) [] [''.'', ''posts'', f] = [''posts'', f]"
    using assms by (simp add: normalize_step_def plain_segment_def)
  have ns: "normalizeString P True = ''posts/'' @ f"
    unfolding normalizeString_def sp kept by simp
  have "path_join [POSTS_DIR, f] = path_normalize P"
    using f by (simp add: path_join_def POSTS_DIR_def P_def)
  also have "\<dots> = ''posts/'' @ f"
    using P by (simp add: path_normalize_def ns Let_def)
  finally show ?thesis .
qed

lemma posts_base:
  assumes "plain_segment f"
  shows "base (path_parse (path_join [POSTS_DIR, f])) = f"
proof -
  have f: "f \<noteq> []" "CHR ''/'' \<notin> set f"
    using assms by (auto simp: plain_segment_def)
  have "base (path_parse (''posts'' @ CHR ''/'' # f)) = f"
    by (rule base_parse_last_segment(1) [OF _ f]) simp
  then show ?thesis
    by (simp add: posts_join [OF assms])
qed

subsection \<open>Output path and href\<close>

text \<open>
  C3 (as amended). For a source path whose base name is not \<^verbatim>\<open>index.html\<close>, the output
  path is the join of the directory, the name and \<^verbatim>\<open>index.html\<close>, normalized; it is
  \<^verbatim>\<open>index.html\<close> or ends in \<^verbatim>\<open>/index.html\<close>. When the directory is made of one or
  more segments, none of them empty, \<^verbatim>\<open>.\<close> or \<^verbatim>\<open>..\<close>, joined by single separators,
  with or without one leading separator (\<open>clean_dir\<close>), and the name is a non-empty
  segment without a separator, other than \<^verbatim>\<open>.\<close> and \<^verbatim>\<open>..\<close> (\<open>plain_segment\<close>), the
  output path is the text \<^verbatim>\<open><dir(P)>/<name(P)>/index.html\<close>. When the directory is empty
  and the name is such a segment, it is \<^verbatim>\<open><name(P)>/index.html\<close>.
\<close>

theorem formatFilename_pretty_url:
  assumes "base (path_parse P) \<noteq> ''index.html''"
  shows "formatFilename P = path_join [dir (path_parse P), name (path_parse P), ''index.html'']
         \<and> (formatFilename P = ''index.html'' \<or> (\<exists>X. formatFilename P = X @ ''/index.html''))
         \<and> (clean_dir (dir (path_parse P)) \<longrightarrow> plain_segment (name (path_parse P)) \<longrightarrow>
              formatFilename P = spec_outputPath P)
         \<and> (dir (path_parse P) = [] \<longrightarrow> plain_segment (name (path_parse P)) \<longrightarrow>
              formatFilename P = name (path_parse P) @ ''/index.html'')"
proof -
  have join: "formatFilename P =
      path_join [dir (path_parse P), name (path_parse P), ''index.html'']"
    using assms by (simp add: formatFilename_def Let_def)
  have shape: "formatFilename P = ''index.html'' \<or> (\<exists>X. formatFilename P = X @ ''/index.html'')"
  proof -
    from path_join_index_html_segments [of "dir (path_parse P)" "name (path_parse P)"]
    obtain pre kept where
      out: "formatFilename P = pre @ str_join (kept @ [''index.html'']) ''/''"
      and pre: "pre = [] \<or> pre = ''/''"
      unfolding join by blast
    show ?thesis
    proof (cases "kept = []")
      case True
      with pre out have "formatFilename P = ''index.html'' \<or> formatFilename P = [] @ ''/index.html''"
        by auto
      then show ?thesis by blast
    next
      case False
      then have "formatFilename P = (pre @ str_join kept ''/'') @ ''/index.html''"
        by (simp add: out str_join_snoc)
      then show ?thesis by blast
    qed
  qed
  show ?thesis
  proof (intro conjI impI)
    show "formatFilename P =
        path_join [dir (path_parse P), name (path_parse P), ''index.html'']"
      by (rule join)
  next
    show "formatFilename P = ''index.html'' \<or> (\<exists>X. formatFilename P = X @ ''/index.html'')"
      by (rule shape)
  next
    assume "clean_dir (dir (path_parse P))" and "plain_segment (name (path_parse P))"
    then show "formatFilename P = spec_outputPath P"
      unfolding join spec_outputPath_def by (rule path_join_clean)
  next
    assume "dir (path_parse P) = []" and "plain_segment (name (path_parse P))"
    then show "formatFilename P = name (path_parse P) @ ''/index.html''"
      unfolding join by (simp add: path_join_empty_dir)
  qed
qed

text \<open>
  C3, as stated, fails. The entry \<^verbatim>\<open>..org\<close> of the documents directory passes the loader's
  test; its source path \<^verbatim>\<open>posts/..org\<close> has the name \<^verbatim>\<open>.\<close>, which the join drops, so the
  output path is \<^verbatim>\<open>posts/index.html\<close> and not \<^verbatim>\<open>posts/./index.html\<close>. A source path
  without a directory gives a relative output path, where the text
  \<^verbatim>\<open><dir(P)>/<name(P)>/index.html\<close> starts with a separator. A source path in the root
  directory has the directory \<^verbatim>\<open>/\<close>, and the join does not double the separator.
\<close>

theorem formatFilename_is_not_concatenation:
  "str_includes ''..org'' ''.org''
   \<and> path_join [POSTS_DIR, ''..org''] = ''posts/..org''
   \<and> base (path_parse ''posts/..org'') \<noteq> ''index.html''
   \<and> formatFilename ''posts/..org'' = ''posts/index.html''
   \<and> spec_outputPath ''posts/..org'' = ''posts/./index.html''
   \<and> base (path_parse ''a.org'') \<noteq> ''index.html''
   \<and> formatFilename ''a.org'' = ''a/index.html''
   \<and> spec_outputPath ''a.org'' = ''/a/index.html''
   \<and> base (path_parse ''/a.org'') \<noteq> ''index.html''
   \<and> formatFilename ''/a.org'' = ''/a/index.html''
   \<and> spec_outputPath ''/a.org'' = ''//a/index.html''"
  by (simp add: formatFilename_def spec_outputPath_def POSTS_DIR_def path_eval)

theorem formatFilename_pretty_url_witness:
  "base (path_parse ''posts/hello-world.org'') \<noteq> ''index.html''
   \<and> clean_dir (dir (path_parse ''posts/hello-world.org''))
   \<and> plain_segment (name (path_parse ''posts/hello-world.org''))
   \<and> formatFilename ''posts/hello-world.org'' = ''posts/hello-world/index.html''
   \<and> base (path_parse ''notes.org'') \<noteq> ''index.html''
   \<and> dir (path_parse ''notes.org'') = []
   \<and> plain_segment (name (path_parse ''notes.org''))
   \<and> formatFilename ''notes.org'' = ''notes/index.html''"
proof -
  have p: "path_parse ''posts/hello-world.org'' =
      \<lparr>root = [], dir = ''posts'', base = ''hello-world.org'', ext = ''.org'',
       name = ''hello-world''\<rparr>"
    by (simp add: path_eval)
  have q: "path_parse ''notes.org'' =
      \<lparr>root = [], dir = [], base = ''notes.org'', ext = ''.org'', name = ''notes''\<rparr>"
    by (simp add: path_eval)
  have 1: "base (path_parse ''posts/hello-world.org'') \<noteq> ''index.html''"
    by (simp add: p)
  have 2: "clean_dir (dir (path_parse ''posts/hello-world.org''))"
    by (simp add: p clean_dir_def plain_segment_def)
  have 3: "plain_segment (name (path_parse ''posts/hello-world.org''))"
    by (simp add: p plain_segment_def)
  have 4: "base (path_parse ''notes.org'') \<noteq> ''index.html''"
    by (simp add: q)
  have 5: "dir (path_parse ''notes.org'') = []"
    by (simp add: q)
  have 6: "plain_segment (name (path_parse ''notes.org''))"
    by (simp add: q plain_segment_def)
  have "formatFilename ''posts/hello-world.org'' = spec_outputPath ''posts/hello-world.org''"
    using formatFilename_pretty_url [OF 1] 2 3 by blast
  then have 7: "formatFilename ''posts/hello-world.org'' = ''posts/hello-world/index.html''"
    by (simp add: spec_outputPath_def p)
  have "formatFilename ''notes.org'' = name (path_parse ''notes.org'') @ ''/index.html''"
    using formatFilename_pretty_url [OF 4] 5 6 by blast
  then have 8: "formatFilename ''notes.org'' = ''notes/index.html''"
    by (simp add: q)
  from 1 2 3 7 4 5 6 8 show ?thesis by (intro conjI)
qed

lemma href_general:
  assumes "base (path_parse P) \<noteq> ''index.html''"
  shows "(formatFilename P = ''index.html'' \<and> href_of P = [])
          \<or> (formatFilename P = ''/index.html'' \<and> href_of P = ''/'')
          \<or> (formatFilename P = href_of P @ ''/index.html'' \<and> href_of P \<noteq> []
              \<and> last (href_of P) \<noteq> CHR ''/'')"
proof -
  have join: "formatFilename P =
      path_join [dir (path_parse P), name (path_parse P), ''index.html'']"
    using assms by (simp add: formatFilename_def Let_def)
  from path_join_index_html_segments [of "dir (path_parse P)" "name (path_parse P)"]
  obtain pre kept where pre: "pre = [] \<or> pre = ''/''"
    and kept: "\<forall>s \<in> set kept. s \<noteq> [] \<and> CHR ''/'' \<notin> set s"
    and out: "formatFilename P = pre @ str_join (kept @ [''index.html'']) ''/''"
    unfolding join by blast
  show ?thesis
  proof (cases "kept = []")
    case True
    have "dir (path_parse ''index.html'') = []" "dir (path_parse ''/index.html'') = ''/''"
      by (simp_all add: path_eval)
    with True pre out show ?thesis
      by (auto simp: href_of_def)
  next
    case False
    define K where "K = str_join kept ''/''"
    define X where "X = pre @ K"
    have lk: "last kept \<in> set kept" using False by simp
    with kept have lkne: "last kept \<noteq> []" and lksep: "CHR ''/'' \<notin> set (last kept)"
      by blast+
    have Kne: "K \<noteq> []"
      unfolding K_def using False kept by (intro str_join_nonempty) auto
    have "last K = last (last kept)"
      unfolding K_def using False lkne by (rule last_str_join)
    moreover have "last (last kept) \<in> set (last kept)"
      using lkne by simp
    ultimately have "last K \<noteq> CHR ''/''"
      using lksep by metis
    then have lastX: "last X \<noteq> CHR ''/''"
      using Kne by (simp add: X_def)
    have X: "X \<noteq> []" using Kne by (simp add: X_def)
    have fmt: "formatFilename P = X @ ''/index.html''"
      using False by (simp add: out X_def K_def str_join_snoc)
    then have "href_of P = X"
      by (simp only: href_of_def dir_parse_index_html [OF X])
    with fmt X lastX show ?thesis by simp
  qed
qed

text \<open>
  C4 (as amended). For a source path whose base name is not \<^verbatim>\<open>index.html\<close>, the href
  is the output path without its trailing \<^verbatim>\<open>/index.html\<close>: it is not empty and does not
  end in a separator, except that the output paths \<^verbatim>\<open>index.html\<close> and
  \<^verbatim>\<open>/index.html\<close> give the hrefs \<^verbatim>\<open>''\<close> and \<^verbatim>\<open>/\<close>. When the directory is made of one
  or more segments, none of them empty, \<^verbatim>\<open>.\<close> or \<^verbatim>\<open>..\<close>, joined by single separators,
  with or without one leading separator, and the name is a non-empty segment without a
  separator, other than \<^verbatim>\<open>.\<close> and \<^verbatim>\<open>..\<close>, the href is the text
  \<^verbatim>\<open><dir(P)>/<name(P)>\<close>.
\<close>

theorem href_is_output_directory:
  assumes "base (path_parse P) \<noteq> ''index.html''"
  shows "((formatFilename P = ''index.html'' \<and> href_of P = [])
          \<or> (formatFilename P = ''/index.html'' \<and> href_of P = ''/'')
          \<or> (formatFilename P = href_of P @ ''/index.html'' \<and> href_of P \<noteq> []
              \<and> last (href_of P) \<noteq> CHR ''/''))
         \<and> (clean_dir (dir (path_parse P)) \<longrightarrow> plain_segment (name (path_parse P)) \<longrightarrow>
              href_of P = dir (path_parse P) @ ''/'' @ name (path_parse P))"
proof -
  have join: "formatFilename P =
      path_join [dir (path_parse P), name (path_parse P), ''index.html'']"
    using assms by (simp add: formatFilename_def Let_def)
  have clean: "href_of P = dir (path_parse P) @ ''/'' @ name (path_parse P)"
    if "clean_dir (dir (path_parse P))" and "plain_segment (name (path_parse P))"
  proof -
    let ?X = "dir (path_parse P) @ ''/'' @ name (path_parse P)"
    have "formatFilename P = ?X @ ''/index.html''"
      unfolding join using path_join_clean [OF that] by simp
    then have "href_of P = dir (path_parse (?X @ ''/index.html''))"
      by (simp only: href_of_def)
    also have "\<dots> = ?X"
      by (rule dir_parse_index_html) simp
    finally show ?thesis .
  qed
  from href_general [OF assms] clean show ?thesis by blast
qed

text \<open>
  C4, as stated, fails: the href of the entry \<^verbatim>\<open>a.org\<close>, whose source path is
  \<^verbatim>\<open>posts/a.org\<close>, is \<^verbatim>\<open>posts/a\<close>, without the separator at the end.
\<close>

theorem href_has_no_trailing_separator:
  "path_join [POSTS_DIR, ''a.org''] = ''posts/a.org''
   \<and> base (path_parse ''posts/a.org'') \<noteq> ''index.html''
   \<and> href_of ''posts/a.org'' = ''posts/a''
   \<and> spec_href ''posts/a.org'' = ''posts/a/''"
  by (simp add: href_of_def formatFilename_def spec_href_def POSTS_DIR_def path_eval)

theorem href_is_output_directory_witness:
  "base (path_parse ''posts/a.org'') \<noteq> ''index.html''
   \<and> clean_dir (dir (path_parse ''posts/a.org''))
   \<and> plain_segment (name (path_parse ''posts/a.org''))
   \<and> href_of ''posts/a.org'' = ''posts/a''
   \<and> formatFilename ''posts/a.org'' = ''posts/a'' @ ''/index.html''
   \<and> last (href_of ''posts/a.org'') \<noteq> CHR ''/''"
proof -
  have p: "path_parse ''posts/a.org'' =
      \<lparr>root = [], dir = ''posts'', base = ''a.org'', ext = ''.org'', name = ''a''\<rparr>"
    by (simp add: path_eval)
  have 1: "base (path_parse ''posts/a.org'') \<noteq> ''index.html''"
    by (simp add: p)
  have 2: "clean_dir (dir (path_parse ''posts/a.org''))"
    by (simp add: p clean_dir_def plain_segment_def)
  have 3: "plain_segment (name (path_parse ''posts/a.org''))"
    by (simp add: p plain_segment_def)
  note T = href_is_output_directory [OF 1]
  have "href_of ''posts/a.org'' = dir (path_parse ''posts/a.org'') @ ''/'' @
          name (path_parse ''posts/a.org'')"
    using T 2 3 by blast
  then have 4: "href_of ''posts/a.org'' = ''posts/a''"
    by (simp add: p)
  have "formatFilename ''posts/a.org'' \<noteq> ''index.html''"
       "formatFilename ''posts/a.org'' \<noteq> ''/index.html''"
    by (simp_all add: formatFilename_def path_eval)
  with T have c: "formatFilename ''posts/a.org'' = href_of ''posts/a.org'' @ ''/index.html''"
    and 6: "last (href_of ''posts/a.org'') \<noteq> CHR ''/''"
    by blast+
  from c have 5: "formatFilename ''posts/a.org'' = ''posts/a'' @ ''/index.html''"
    by (simp only: 4)
  from 1 2 3 4 5 6 show ?thesis by (intro conjI)
qed

section \<open>Properties of document compilation\<close>

text \<open>
  Without the separator \<^verbatim>\<open>indexOf\<close> gives \<open>-1\<close>: the header is the content without its
  last character, the body is the content without its first four characters, and the
  outcome is whatever the metadata parser makes of that header.
\<close>

lemma compileOrgFile_no_separator:
  assumes "\<not> str_includes (readFileSync env path) separator"
  shows "compileOrgFile env path =
           (case parseMetadata (butlast (readFileSync env path)) of
              Inl e \<Rightarrow> Inl e
            | Inr md \<Rightarrow>
                Inr \<lparr>html = pandoc env (drop 4 (readFileSync env path)), metadata = md\<rparr>)"
proof -
  have idx: "str_indexOf (readFileSync env path) separator = - 1"
    using assms by (simp add: str_indexOf_def indexOf_from_absent)
  have len: "int (length separator) = 5"
    by (simp add: separator_def)
  show ?thesis
    by (simp add: compileOrgFile_def idx len str_slice_butlast str_slice_drop Let_def
             split: sum.splits)
qed

text \<open>
  C9. A document without the separator: a title line, a blank line and a line of text.
  The header is the content without its last character; its blank line has no colon, so
  the metadata parser throws, compilation ends in a TypeError and the converter is never
  called.
\<close>

theorem compileOrgFile_no_separator_throws:
  "\<not> str_includes (''title: Notes'' @ [CHR 0x0A, CHR 0x0A] @ ''Some text.'' @ [CHR 0x0A]) separator
   \<and> compileOrgFile
         (example_env [] (''title: Notes'' @ [CHR 0x0A, CHR 0x0A] @ ''Some text.'' @ [CHR 0x0A]) [])
         ''posts/a.org'' = Inl TypeError"
  by (simp add: separator_def compileOrgFile_def example_env_def str_indexOf_def str_slice_def
        parseMetadata_def parseMetadata_step_def str_trim_def isWhiteSpace_def)


section \<open>Sequencing and the files written\<close>

lemma andThen_Inl [simp]: "andThen (ev, Inl e) f = (ev, Inl e)"
  by (simp add: andThen_def)

lemma andThen_Inr [simp]: "andThen (ev, Inr x) f = (ev @ fst (f x), snd (f x))"
  by (simp add: andThen_def split: prod.splits)

lemma fst_andThen:
  "fst (andThen m f) = (case snd m of Inl e \<Rightarrow> fst m | Inr x \<Rightarrow> fst m @ fst (f x))"
  by (cases m) (auto split: sum.splits)

lemma snd_andThen:
  "snd (andThen m f) = (case snd m of Inl e \<Rightarrow> Inl e | Inr x \<Rightarrow> snd (f x))"
  by (cases m) (auto split: sum.splits)

lemma writtenPaths_append [simp]: "writtenPaths (xs @ ys) = writtenPaths xs @ writtenPaths ys"
  by (simp add: writtenPaths_def)

lemma writtenPaths_simps [simp]:
  "writtenPaths [] = []"
  "writtenPaths (Log t # evs) = writtenPaths evs"
  "writtenPaths (LogWarnings w # evs) = writtenPaths evs"
  "writtenPaths (Mkdir d # evs) = writtenPaths evs"
  "writtenPaths (WriteFile p c # evs) = p # writtenPaths evs"
  by (simp_all add: writtenPaths_def)


section \<open>Properties of document loading\<close>

lemma postsData_loop_filter:
  assumes "\<forall>f \<in> set entries. str_includes f ''.org'' \<longrightarrow>
             (\<exists>r. compileOrgFile env (path_join [POSTS_DIR, f]) = Inr r)"
  shows "\<exists>data. postsData_loop env entries =
            (map (\<lambda>f. Log (''Skipping '' @ f)) (filter (\<lambda>f. \<not> str_includes f ''.org'') entries),
             Inr data)
          \<and> map filename data = filter (\<lambda>f. str_includes f ''.org'') entries"
  using assms
proof (induction entries)
  case Nil
  then show ?case by simp
next
  case (Cons f entries)
  then obtain data where rest:
    "postsData_loop env entries =
       (map (\<lambda>f. Log (''Skipping '' @ f)) (filter (\<lambda>f. \<not> str_includes f ''.org'') entries),
        Inr data)"
    "map filename data = filter (\<lambda>f. str_includes f ''.org'') entries"
    by auto
  show ?case
  proof (cases "str_includes f ''.org''")
    case True
    with Cons.prems obtain r where "compileOrgFile env (path_join [POSTS_DIR, f]) = Inr r"
      by auto
    with True rest show ?thesis by (simp add: Let_def)
  next
    case False
    with rest show ?thesis by (simp add: Let_def)
  qed
qed

lemma ext_is_substring: "ext (path_parse f) = e \<Longrightarrow> e \<noteq> [] \<Longrightarrow> str_includes f e"
  by (auto simp: path_parse_def parse_result_def Let_def str_slice_def str_includes_sublist
           split: if_splits intro: sublist_order.order_trans [OF sublist_take sublist_drop])

lemma postsData_loop_no_writes: "writtenPaths (fst (postsData_loop env entries)) = []"
  by (induction entries) (auto simp: Let_def fst_andThen split: sum.splits)

lemma postsData_loop_loaded:
  "postsData_loop env entries = (ev, Inr data) \<Longrightarrow>
     \<forall>d \<in> set data. filename d \<in> set entries \<and> str_includes (filename d) ''.org''
        \<and> fullpath d = path_join [POSTS_DIR, filename d] \<and> href d = href_of (fullpath d)"
proof (induction entries arbitrary: ev data)
  case Nil
  then show ?case by simp
next
  case (Cons f entries)
  obtain ev' r where rest: "postsData_loop env entries = (ev', r)"
    by (cases "postsData_loop env entries")
  show ?case
  proof (cases r)
    case (Inl e)
    with Cons.prems rest show ?thesis
      by (auto simp: Let_def split: if_splits sum.splits)
  next
    case (Inr data')
    with rest Cons.IH have IH: "\<forall>d \<in> set data'. filename d \<in> set entries
        \<and> str_includes (filename d) ''.org''
        \<and> fullpath d = path_join [POSTS_DIR, filename d] \<and> href d = href_of (fullpath d)"
      by blast
    from Cons.prems rest Inr IH show ?thesis
      by (auto simp: Let_def split: if_splits sum.splits)
  qed
qed

text \<open>
  What the loader's test does. When every entry whose name contains \<^verbatim>\<open>.org\<close> compiles,
  the documents loaded are exactly the entries whose name contains \<^verbatim>\<open>.org\<close> anywhere,
  in directory order; exactly the other entries are logged as skipped; and every entry
  with the extension \<^verbatim>\<open>.org\<close> is among those loaded.
\<close>

lemma postsData_includes_by_substring:
  assumes "\<forall>f \<in> set (readdirSync env POSTS_DIR). str_includes f ''.org'' \<longrightarrow>
             (\<exists>r. compileOrgFile env (path_join [POSTS_DIR, f]) = Inr r)"
  shows "(\<exists>data. snd (postsData env) = Inr data
            \<and> map filename data =
                filter (\<lambda>f. str_includes f ''.org'') (readdirSync env POSTS_DIR))
         \<and> fst (postsData env) =
             map (\<lambda>f. Log (''Skipping '' @ f))
               (filter (\<lambda>f. \<not> str_includes f ''.org'') (readdirSync env POSTS_DIR))
         \<and> (\<forall>f. spec_hasDocumentExtension f \<longrightarrow> str_includes f ''.org'')"
proof -
  from postsData_loop_filter [OF assms] obtain data where
    "postsData env =
       (map (\<lambda>f. Log (''Skipping '' @ f))
          (filter (\<lambda>f. \<not> str_includes f ''.org'') (readdirSync env POSTS_DIR)), Inr data)"
    "map filename data = filter (\<lambda>f. str_includes f ''.org'') (readdirSync env POSTS_DIR)"
    unfolding postsData_def by blast
  moreover have "\<forall>f. spec_hasDocumentExtension f \<longrightarrow> str_includes f ''.org''"
    by (auto simp: spec_hasDocumentExtension_def intro: ext_is_substring)
  ultimately show ?thesis by simp
qed

lemma example_compile:
  "compileOrgFile (example_env entries example_document scripts) p
     = Inr \<lparr>html = ''body'', metadata = [''title'' \<mapsto> ''T'']\<rparr>"
  by (simp add: example_document_def separator_def compileOrgFile_def example_env_def
        str_indexOf_def str_slice_def parseMetadata_def parseMetadata_step_def str_trim_def
        isWhiteSpace_def)

lemma example_readdir: "readdirSync (example_env entries c scripts) d = entries"
  by (simp add: example_env_def)

lemma postsData_includes_by_substring_example:
  "(\<exists>data. snd (postsData (example_env [''a.org'', ''README.md'', ''b.org~'']
                           example_document [])) = Inr data
        \<and> map filename data = [''a.org'', ''b.org~''])
   \<and> fst (postsData (example_env [''a.org'', ''README.md'', ''b.org~''] example_document []))
       = [Log ''Skipping README.md'']"
proof -
  let ?env = "example_env [''a.org'', ''README.md'', ''b.org~''] example_document []"
  have "\<forall>f \<in> set (readdirSync ?env POSTS_DIR). str_includes f ''.org'' \<longrightarrow>
          (\<exists>r. compileOrgFile ?env (path_join [POSTS_DIR, f]) = Inr r)"
    by (simp add: example_compile)
  from postsData_includes_by_substring [OF this] show ?thesis
    by (simp add: example_readdir)
qed

text \<open>
  C6. The test is \<^verbatim>\<open>filename.includes('.org')\<close>, so an entry whose extension is not
  \<^verbatim>\<open>.org\<close> is loaded when its name contains \<^verbatim>\<open>.org\<close>: \<^verbatim>\<open>notes.org.bak\<close> becomes a
  document with the href \<^verbatim>\<open>posts/notes.org\<close>, and the editor backup \<^verbatim>\<open>a.org~\<close> is loaded
  beside \<^verbatim>\<open>a.org\<close> and written to the same output path.
\<close>

theorem postsData_includes_backup_file:
  "\<not> spec_hasDocumentExtension ''notes.org.bak''
   \<and> postsData (example_env [''notes.org.bak''] example_document [])
       = ([], Inr [\<lparr>html = ''body'', metadata = [''title'' \<mapsto> ''T''],
                     filename = ''notes.org.bak'', fullpath = ''posts/notes.org.bak'',
                     href = ''posts/notes.org''\<rparr>])
   \<and> \<not> spec_hasDocumentExtension ''a.org~''
   \<and> postsData (example_env [''a.org'', ''a.org~''] example_document [])
       = ([], Inr [\<lparr>html = ''body'', metadata = [''title'' \<mapsto> ''T''],
                     filename = ''a.org'', fullpath = ''posts/a.org'', href = ''posts/a''\<rparr>,
                   \<lparr>html = ''body'', metadata = [''title'' \<mapsto> ''T''],
                     filename = ''a.org~'', fullpath = ''posts/a.org~'', href = ''posts/a''\<rparr>])
   \<and> outputPath ''posts/a.org'' = ''build/posts/a/index.html''
   \<and> outputPath ''posts/a.org~'' = ''build/posts/a/index.html''"
proof -
  have 1: "\<not> spec_hasDocumentExtension ''notes.org.bak''" "\<not> spec_hasDocumentExtension ''a.org~''"
    by (simp_all add: spec_hasDocumentExtension_def path_eval)
  have 2: "path_join [POSTS_DIR, ''notes.org.bak''] = ''posts/notes.org.bak''"
    "path_join [POSTS_DIR, ''a.org''] = ''posts/a.org''"
    "path_join [POSTS_DIR, ''a.org~''] = ''posts/a.org~''"
    by (simp_all add: POSTS_DIR_def path_eval)
  have 3: "href_of ''posts/notes.org.bak'' = ''posts/notes.org''"
    "href_of ''posts/a.org'' = ''posts/a''" "href_of ''posts/a.org~'' = ''posts/a''"
    by (simp_all add: href_of_def formatFilename_def path_eval)
  have 4: "outputPath ''posts/a.org'' = ''build/posts/a/index.html''"
    "outputPath ''posts/a.org~'' = ''build/posts/a/index.html''"
    by (simp_all add: outputPath_def formatFilename_def path_eval)
  show ?thesis
    by (simp add: 1 postsData_def example_readdir 2 3 4 example_compile)
qed

subsection \<open>Source paths named \<^verbatim>\<open>index.html\<close>\<close>

text \<open>
  C5 (as amended). For a source path whose base name is \<^verbatim>\<open>index.html\<close>, the output path
  is the source path unchanged. No href is computed for such a path: when the entries of
  the documents directory are file names (not empty, no separator, not \<^verbatim>\<open>.\<close> or
  \<^verbatim>\<open>..\<close>), the base name of every loaded document's source path is its file name and
  is not \<^verbatim>\<open>index.html\<close>, and an entry whose source path has the base name
  \<^verbatim>\<open>index.html\<close> is skipped.
\<close>

theorem formatFilename_index_unchanged:
  "(base (path_parse P) = ''index.html'' \<longrightarrow> formatFilename P = P)
   \<and> (list_all plain_segment (readdirSync env POSTS_DIR) \<longrightarrow> snd (postsData env) = Inr data \<longrightarrow>
        (\<forall>d \<in> set data. base (path_parse (fullpath d)) = filename d
                          \<and> filename d \<noteq> ''index.html''))
   \<and> (plain_segment fname \<longrightarrow>
        base (path_parse (path_join [POSTS_DIR, fname])) = ''index.html'' \<longrightarrow>
        postsData_loop env (fname # rest) =
          andThen ([Log (''Skipping '' @ fname)], Inr ()) (\<lambda>_. postsData_loop env rest))"
proof (intro conjI impI)
  assume "base (path_parse P) = ''index.html''"
  then show "formatFilename P = P"
    by (simp add: formatFilename_def)
next
  assume entries: "list_all plain_segment (readdirSync env POSTS_DIR)"
    and ok: "snd (postsData env) = Inr data"
  obtain ev where "postsData_loop env (readdirSync env POSTS_DIR) = (ev, Inr data)"
    using ok unfolding postsData_def by (cases "postsData_loop env (readdirSync env POSTS_DIR)") auto
  from postsData_loop_loaded [OF this]
  have loaded: "\<forall>d \<in> set data. filename d \<in> set (readdirSync env POSTS_DIR)
      \<and> str_includes (filename d) ''.org''
      \<and> fullpath d = path_join [POSTS_DIR, filename d]"
    by blast
  show "\<forall>d \<in> set data. base (path_parse (fullpath d)) = filename d
                          \<and> filename d \<noteq> ''index.html''"
  proof
    fix d assume d: "d \<in> set data"
    with loaded entries have "plain_segment (filename d)"
      by (auto simp: list_all_iff)
    then have "base (path_parse (path_join [POSTS_DIR, filename d])) = filename d"
      by (rule posts_base)
    moreover have "filename d \<noteq> ''index.html''"
      using loaded d by auto
    ultimately show "base (path_parse (fullpath d)) = filename d
                          \<and> filename d \<noteq> ''index.html''"
      using loaded d by simp
  qed
next
  assume "plain_segment fname"
    and b: "base (path_parse (path_join [POSTS_DIR, fname])) = ''index.html''"
  then have "fname = ''index.html''"
    by (simp add: posts_base)
  then show "postsData_loop env (fname # rest) =
          andThen ([Log (''Skipping '' @ fname)], Inr ()) (\<lambda>_. postsData_loop env rest)"
    by (simp add: Let_def)
qed

text \<open>
  C5, as stated, fails in its second half: the entry \<^verbatim>\<open>index.html\<close> has the source path
  \<^verbatim>\<open>posts/index.html\<close>, whose base name is \<^verbatim>\<open>index.html\<close>, and the loader computes no
  href for it: the entry is skipped and the document list is empty.
\<close>

theorem index_html_entry_has_no_href:
  "path_join [POSTS_DIR, ''index.html''] = ''posts/index.html''
   \<and> base (path_parse ''posts/index.html'') = ''index.html''
   \<and> postsData (example_env [''index.html''] example_document [])
       = ([Log ''Skipping index.html''], Inr [])"
proof -
  have 1: "path_join [POSTS_DIR, ''index.html''] = ''posts/index.html''"
    by (simp add: POSTS_DIR_def path_eval)
  have 2: "base (path_parse ''posts/index.html'') = ''index.html''"
    by (simp add: path_eval)
  have 3: "postsData (example_env [''index.html''] example_document [])
       = ([Log ''Skipping index.html''], Inr [])"
    by (simp add: postsData_def example_readdir)
  from 1 2 3 show ?thesis by (intro conjI)
qed

theorem formatFilename_index_unchanged_witness:
  "base (path_parse ''build/index.html'') = ''index.html''
   \<and> formatFilename ''build/index.html'' = ''build/index.html''
   \<and> list_all plain_segment [''index.html'', ''a.org'']
   \<and> postsData (example_env [''index.html'', ''a.org''] example_document [])
       = ([Log ''Skipping index.html''],
          Inr [\<lparr>html = ''body'', metadata = [''title'' \<mapsto> ''T''], filename = ''a.org'',
                 fullpath = ''posts/a.org'', href = ''posts/a''\<rparr>])
   \<and> base (path_parse ''posts/a.org'') = ''a.org''
   \<and> plain_segment ''index.html''
   \<and> base (path_parse (path_join [POSTS_DIR, ''index.html''])) = ''index.html''
   \<and> postsData_loop (example_env [''index.html'', ''a.org''] example_document [])
         [''index.html'', ''a.org'']
       = andThen ([Log ''Skipping index.html''], Inr ())
           (\<lambda>_. postsData_loop (example_env [''index.html'', ''a.org''] example_document [])
                   [''a.org''])"
proof -
  let ?env = "example_env [''index.html'', ''a.org''] example_document []"
  let ?post = "\<lparr>html = ''body'', metadata = [''title'' \<mapsto> ''T''], filename = ''a.org'',
                 fullpath = ''posts/a.org'', href = ''posts/a''\<rparr>"
  note T = formatFilename_index_unchanged
    [where P = "''build/index.html''" and env = "?env" and data = "[?post]"
       and fname = "''index.html''" and rest = "[''a.org'']"]
  have 1: "base (path_parse ''build/index.html'') = ''index.html''"
    by (simp add: path_eval)
  have 2: "formatFilename ''build/index.html'' = ''build/index.html''"
    using T [THEN conjunct1, THEN mp, OF 1] .
  have 3: "list_all plain_segment [''index.html'', ''a.org'']"
    and 6: "plain_segment ''index.html''"
    by (simp_all add: plain_segment_def)
  have join: "path_join [POSTS_DIR, ''a.org''] = ''posts/a.org''"
    "path_join [POSTS_DIR, ''index.html''] = ''posts/index.html''"
    by (simp_all add: POSTS_DIR_def path_eval)
  have href: "href_of ''posts/a.org'' = ''posts/a''"
    by (simp add: href_of_def formatFilename_def path_eval)
  have 4: "postsData ?env = ([Log ''Skipping index.html''], Inr [?post])"
    by (simp add: postsData_def example_readdir join href example_compile)
  have entries: "list_all plain_segment (readdirSync ?env POSTS_DIR)"
    using 3 by (simp only: example_readdir)
  have ok: "snd (postsData ?env) = Inr [?post]"
    by (simp add: 4)
  have "\<forall>d \<in> set [?post]. base (path_parse (fullpath d)) = filename d
                          \<and> filename d \<noteq> ''index.html''"
    using T [THEN conjunct2, THEN conjunct1, THEN mp, THEN mp, OF entries ok] .
  then have 5: "base (path_parse ''posts/a.org'') = ''a.org''"
    by (simp only: list.set ball_simps PostData.simps select_convs)
  have "base (path_parse ''posts/index.html'') = ''index.html''"
    by (simp add: path_eval)
  then have 7: "base (path_parse (path_join [POSTS_DIR, ''index.html''])) = ''index.html''"
    by (simp only: join)
  have 8: "postsData_loop ?env [''index.html'', ''a.org'']
       = andThen ([Log ''Skipping index.html''], Inr ())
           (\<lambda>_. postsData_loop ?env [''a.org''])"
    using T [THEN conjunct2, THEN conjunct2, THEN mp, THEN mp, OF 6 7]
    by (simp only: append.simps)
  from 1 2 3 4 5 6 7 8 show ?thesis by (intro conjI)
qed

section \<open>Properties of the order of writes\<close>

lemma minifyJS_no_writes: "writtenPaths (fst (minifyJS env t)) = []"
  by (simp add: minifyJS_def Let_def split: option.splits)

lemma minifyScripts_no_writes: "writtenPaths (fst (minifyScripts env ts)) = []"
  by (induction ts) (simp_all add: fst_andThen minifyJS_no_writes split: sum.splits)

lemma optimizeHtml_no_writes: "writtenPaths (fst (optimizeHtml env page)) = []"
  by (simp add: optimizeHtml_def htmlMinifier_minify_def fst_andThen minifyScripts_no_writes
           split: sum.splits)

lemma write_empty_dir:
  "dir (path_parse (outputPath f)) = [] \<Longrightarrow> write env f c = ([], Inl (FsError ''ENOENT''))"
  by (simp add: write_def outputPath_def mkdirSync_def)

lemma write_nonempty_dir:
  "dir (path_parse (outputPath f)) \<noteq> [] \<Longrightarrow>
     write env f c =
       andThen ([Mkdir (dir (path_parse (outputPath f))), Log (''Writing to '' @ outputPath f)],
                Inr ())
         (\<lambda>_. andThen (optimizeHtml env c) (\<lambda>out. ([WriteFile (outputPath f) out], Inr ())))"
  by (simp add: write_def outputPath_def mkdirSync_def Let_def)

lemma snd_write:
  "snd (write env f c) =
     (if dir (path_parse (outputPath f)) = [] then Inl (FsError ''ENOENT'')
      else case snd (optimizeHtml env c) of Inl e \<Rightarrow> Inl e | Inr out \<Rightarrow> Inr ())"
  by (simp add: write_empty_dir write_nonempty_dir snd_andThen split: sum.splits)

lemma write_paths:
  "writtenPaths (fst (write env f c)) =
     (case snd (write env f c) of
        Inr u \<Rightarrow> [formatFilename (path_join [''build'', f])]
      | Inl e \<Rightarrow> [])"
proof (cases "dir (path_parse (outputPath f)) = []")
  case True
  then show ?thesis by (simp add: write_empty_dir)
next
  case False
  then show ?thesis
    by (simp add: write_nonempty_dir fst_andThen snd_andThen optimizeHtml_no_writes
          outputPath_def split: sum.splits)
qed

lemma genPosts_paths:
  "snd (genPosts env ps) = Inr u \<Longrightarrow>
     writtenPaths (fst (genPosts env ps)) =
       map (\<lambda>p. formatFilename (path_join [''build'', fullpath p])) ps"
  by (induction ps) (auto simp: fst_andThen snd_andThen write_paths split: sum.splits)

lemma genPosts_paths_prefix:
  "prefix (writtenPaths (fst (genPosts env ps)))
     (map (\<lambda>p. formatFilename (path_join [''build'', fullpath p])) ps)"
  by (induction ps) (auto simp: fst_andThen snd_andThen write_paths split: sum.splits)

lemma index_path: "formatFilename (path_join [''build'', ''index.html'']) = ''build/index.html''"
  by (simp add: formatFilename_def path_eval)

lemma postsData_no_writes: "writtenPaths (fst (postsData env)) = []"
  by (simp add: postsData_def postsData_loop_no_writes)

lemma main_after_load:
  assumes "snd (postsData env) = Inr DATA"
  shows "writtenPaths (fst (main env)) =
           ''build/assets/fonts.css'' #
           writtenPaths (fst (andThen (genPosts env DATA) (\<lambda>_. genIndex env DATA)))"
    and "snd (main env) = snd (andThen (genPosts env DATA) (\<lambda>_. genIndex env DATA))"
proof -
  obtain ev where pd: "postsData env = (ev, Inr DATA)"
    using assms by (cases "postsData env") auto
  then have "writtenPaths ev = []"
    using postsData_no_writes [of env] by simp
  then show "writtenPaths (fst (main env)) =
           ''build/assets/fonts.css'' #
           writtenPaths (fst (andThen (genPosts env DATA) (\<lambda>_. genIndex env DATA)))"
    by (simp add: main_def pd compileFontCss_def mkdirSync_def)
  show "snd (main env) = snd (andThen (genPosts env DATA) (\<lambda>_. genIndex env DATA))"
    by (simp add: main_def pd compileFontCss_def mkdirSync_def)
qed

text \<open>
  C7 (as amended). After the documents are loaded, the files are written in this order:
  the font stylesheet, each document's page in list order, and the index page last. A
  build that throws has written a prefix of that sequence.
\<close>

theorem main_writes_documents_before_index:
  assumes "snd (postsData env) = Inr DATA"
  shows "prefix (writtenPaths (fst (main env)))
           (''build/assets/fonts.css'' #
            map (\<lambda>p. formatFilename (path_join [''build'', fullpath p])) DATA @
            [''build/index.html''])
         \<and> (snd (main env) = Inr () \<longrightarrow>
              writtenPaths (fst (main env)) =
                ''build/assets/fonts.css'' #
                map (\<lambda>p. formatFilename (path_join [''build'', fullpath p])) DATA @
                [''build/index.html''])"
proof (cases "snd (genPosts env DATA)")
  case (Inl e)
  then have "snd (main env) = Inl e"
    by (simp add: main_after_load(2) [OF assms] snd_andThen)
  moreover have "writtenPaths (fst (main env)) =
      ''build/assets/fonts.css'' # writtenPaths (fst (genPosts env DATA))"
    using Inl by (simp add: main_after_load(1) [OF assms] fst_andThen)
  ultimately show ?thesis
    using genPosts_paths_prefix [of env DATA] by (simp add: prefix_append)
next
  case (Inr u)
  have posts: "writtenPaths (fst (genPosts env DATA)) =
      map (\<lambda>p. formatFilename (path_join [''build'', fullpath p])) DATA"
    using Inr by (rule genPosts_paths)
  have paths: "writtenPaths (fst (main env)) =
      ''build/assets/fonts.css'' #
      map (\<lambda>p. formatFilename (path_join [''build'', fullpath p])) DATA @
      writtenPaths (fst (genIndex env DATA))"
    using Inr by (simp add: main_after_load(1) [OF assms] fst_andThen posts)
  have res: "snd (main env) = snd (genIndex env DATA)"
    using Inr by (simp add: main_after_load(2) [OF assms] snd_andThen)
  have idx: "writtenPaths (fst (genIndex env DATA)) =
      (case snd (genIndex env DATA) of Inr u \<Rightarrow> [''build/index.html''] | Inl e \<Rightarrow> [])"
    by (simp add: genIndex_def write_paths index_path split: sum.splits)
  show ?thesis
    by (cases "snd (genIndex env DATA)") (simp_all add: paths res idx)
qed

lemma example_postsData:
  "postsData (example_env [''a.org''] example_document scripts)
     = ([], Inr [\<lparr>html = ''body'', metadata = [''title'' \<mapsto> ''T''], filename = ''a.org'',
                   fullpath = ''posts/a.org'', href = ''posts/a''\<rparr>])"
proof -
  have 1: "path_join [POSTS_DIR, ''a.org''] = ''posts/a.org''"
    by (simp add: POSTS_DIR_def path_eval)
  have 2: "href_of ''posts/a.org'' = ''posts/a''"
    by (simp add: href_of_def formatFilename_def path_eval)
  show ?thesis
    by (simp add: postsData_def example_readdir 1 2 example_compile)
qed

lemma example_output_path:
  "formatFilename (path_join [''build'', ''posts/a.org'']) = ''build/posts/a/index.html''"
  by (simp add: formatFilename_def path_eval)

lemma example_output_paths:
  "outputPath ''posts/a.org'' = ''build/posts/a/index.html''"
  "outputPath ''index.html'' = ''build/index.html''"
  by (simp_all add: outputPath_def example_output_path index_path)

lemma example_output_dirs:
  "dir (path_parse ''build/posts/a/index.html'') = ''build/posts/a''"
  "dir (path_parse ''build/index.html'') = ''build''"
  by (simp_all add: path_eval)

lemma example_optimizeHtml:
  "optimizeHtml (example_env entries c []) page = ([], Inr page)"
  by (simp add: optimizeHtml_def htmlMinifier_minify_def example_env_def)

lemma example_write:
  "dir (path_parse (outputPath f)) \<noteq> [] \<Longrightarrow>
   write (example_env entries c []) f page =
     ([Mkdir (dir (path_parse (outputPath f))),
       Log (''Writing to '' @ outputPath f),
       WriteFile (outputPath f) page], Inr ())"
  by (simp add: write_nonempty_dir example_optimizeHtml)

lemma example_main:
  "main (example_env [''a.org''] example_document []) =
     ([Mkdir ''build/assets'', WriteFile ''build/assets/fonts.css'' [],
       Mkdir ''build/posts/a'', Log ''Writing to build/posts/a/index.html'',
       WriteFile ''build/posts/a/index.html'' ''T - Frank Filho: body'',
       Mkdir ''build'', Log ''Writing to build/index.html'',
       WriteFile ''build/index.html'' ''Frank Filho''], Inr ())"
proof -
  have w1: "write (example_env [''a.org''] example_document []) ''posts/a.org'' page =
      ([Mkdir ''build/posts/a'', Log ''Writing to build/posts/a/index.html'',
        WriteFile ''build/posts/a/index.html'' page], Inr ())" for page
    using example_write [of "''posts/a.org''" "[''a.org'']" example_document page]
    by (simp add: example_output_paths example_output_dirs)
  have w2: "write (example_env [''a.org''] example_document []) ''index.html'' page =
      ([Mkdir ''build'', Log ''Writing to build/index.html'',
        WriteFile ''build/index.html'' page], Inr ())" for page
    using example_write [of "''index.html''" "[''a.org'']" example_document page]
    by (simp add: example_output_paths example_output_dirs)
  have tpl: "makePost (example_env [''a.org''] example_document []) post d = title d @ '': '' @ html post"
    "makeIndex (example_env [''a.org''] example_document []) posts d = title d"
    "fontsCss (example_env [''a.org''] example_document []) = []" for post d posts
    by (simp_all add: example_env_def)
  show ?thesis
    by (simp add: main_def example_postsData compileFontCss_def mkdirSync_def genIndex_def
          w1 w2 tpl defaults_def)
qed

lemma example_main_ok: "snd (main (example_env [''a.org''] example_document [])) = Inr ()"
  by (simp add: example_main)

text \<open>
  C7, as stated, fails: in a build of one document \<^verbatim>\<open>a.org\<close> the index page is the
  last file written, after the document's page.
\<close>

theorem main_writes_index_last:
  "writtenPaths (fst (main (example_env [''a.org''] example_document [])))
     = [''build/assets/fonts.css'', ''build/posts/a/index.html'', ''build/index.html'']
   \<and> \<not> spec_indexBeforeDocuments [''build/posts/a/index.html'']
         (writtenPaths (fst (main (example_env [''a.org''] example_document []))))"
proof -
  have "writtenPaths (fst (main (example_env [''a.org''] example_document [])))
     = [''build/assets/fonts.css'', ''build/posts/a/index.html'', ''build/index.html'']"
    by (simp add: example_main)
  then show ?thesis
    by (simp add: spec_indexBeforeDocuments_def)
qed

theorem main_writes_documents_before_index_witness:
  "snd (postsData (example_env [''a.org''] example_document [])) =
     Inr [\<lparr>html = ''body'', metadata = [''title'' \<mapsto> ''T''], filename = ''a.org'',
            fullpath = ''posts/a.org'', href = ''posts/a''\<rparr>]
   \<and> snd (main (example_env [''a.org''] example_document [])) = Inr ()
   \<and> writtenPaths (fst (main (example_env [''a.org''] example_document [])))
       = [''build/assets/fonts.css'', ''build/posts/a/index.html'', ''build/index.html'']"
proof -
  have h: "snd (postsData (example_env [''a.org''] example_document [])) =
     Inr [\<lparr>html = ''body'', metadata = [''title'' \<mapsto> ''T''], filename = ''a.org'',
            fullpath = ''posts/a.org'', href = ''posts/a''\<rparr>]"
    by (simp add: example_postsData)
  from main_writes_documents_before_index [OF h] example_main_ok h show ?thesis
    by (simp add: example_output_path)
qed


section \<open>Properties of HTML optimization\<close>



lemma minifyJS_ok:
  "error (terser env text) = None \<Longrightarrow> snd (minifyJS env text) = Inr (code (terser env text))"
  by (simp add: minifyJS_def Let_def)


lemma minifyScripts_ok:
  assumes "\<forall>t \<in> set texts. error (terser env t) = None"
  shows "snd (minifyScripts env texts) = Inr (map (\<lambda>t. code (terser env t)) texts)"
  using assms
proof (induction texts)
  case Nil
  then show ?case by simp
next
  case (Cons a texts)
  then have "snd (minifyJS env a) = Inr (code (terser env a))"
    by (simp add: minifyJS_ok)
  moreover from Cons have "snd (minifyScripts env texts) = Inr (map (\<lambda>t. code (terser env t)) texts)"
    by simp
  ultimately show ?case
    by (simp add: snd_andThen)
qed

lemma optimizeHtml_highlights_first:
  "optimizeHtml env page =
     andThen (minifyScripts env (scriptBlocks env (highlightHtml env page)))
       (\<lambda>cs. ([], Inr (minifiedHtml env (highlightHtml env page) cs)))"
  by (simp add: optimizeHtml_def htmlMinifier_minify_def)


lemma optimizeHtml_ok:
  assumes "\<forall>t \<in> set (scriptBlocks env (highlightHtml env page)). error (terser env t) = None"
  shows "snd (optimizeHtml env page) =
           Inr (minifiedHtml env (highlightHtml env page)
                  (map (\<lambda>t. code (terser env t)) (scriptBlocks env (highlightHtml env page))))"
  by (simp add: optimizeHtml_highlights_first snd_andThen minifyScripts_ok [OF assms])











section \<open>Properties of the page title\<close>

text \<open>
  C10. A document whose \<^verbatim>\<open>title\<close> is the empty string gets the bare site name as its
  page title, the same title as without the key; a title other than the bare site name
  is always a non-empty metadata title followed by the site suffix.
\<close>

theorem defaults_empty_title_is_site_name:
  "metadata p ''title'' = Some [] \<Longrightarrow>
     title (defaults env (Some p)) = ''Frank Filho''
     \<and> title (defaults env (Some p)) =
         title (defaults env (Some (p\<lparr>metadata := (metadata p)(''title'' := None)\<rparr>)))
     \<and> (\<forall>q. title (defaults env (Some q)) \<noteq> ''Frank Filho'' \<longrightarrow>
            (\<exists>t. t \<noteq> [] \<and> metadata q ''title'' = Some t
                 \<and> title (defaults env (Some q)) = t @ '' - Frank Filho''))"
  by (auto simp: defaults_def split: option.splits)

theorem defaults_empty_title_witness:
  "metadata (example_post []) ''title'' = Some []
   \<and> title (defaults (example_env [] [] []) (Some (example_post []))) = ''Frank Filho''
   \<and> title (defaults (example_env [] [] []) (Some (example_post ''Notes'')))
       = ''Notes - Frank Filho''"
proof -
  have h: "metadata (example_post []) ''title'' = Some []"
    by (simp add: example_post_def)
  have "title (defaults (example_env [] [] []) (Some (example_post ''Notes'')))
          = ''Notes - Frank Filho''"
    by (simp add: defaults_def example_post_def)
  with h defaults_empty_title_is_site_name [OF h, of "example_env [] [] []"] show ?thesis
    by simp
qed

end
